theory Spec2Isabelle
  imports Main "HOL-Library.Word"
begin

unbundle bit_operations_syntax

section \<open>Data model of \<^verbatim>\<open>src/snapshot/snapshot.cc\<close>\<close>

type_synonym byte = "8 word"
type_synonym uint32 = "32 word"

text \<open>The C type \<^verbatim>\<open>int\<close>: 32 bits, read as a signed value with \<^const>\<open>sint\<close>.
  The casts \<^verbatim>\<open>static_cast<uint32_t>\<close> and \<^verbatim>\<open>static_cast<int>\<close> keep the bits.\<close>

type_synonym int32 = "32 word"

text \<open>How a call can end without a result. \<open>CheckFailed\<close> is a failed \<^verbatim>\<open>CHECK\<close>
  (the process aborts); \<open>VersionMismatch\<close> is the \<^verbatim>\<open>FATAL\<close> of \<^verbatim>\<open>CheckVersion\<close> with the
  four values its message prints; \<open>OutOfBounds\<close> is an access outside the allocated bytes
  (or through a null pointer), which no check of the code catches.\<close>

datatype failure =
    CheckFailed
  | VersionMismatch "byte list" "byte list" int int
  | OutOfBounds

text \<open>\<^verbatim>\<open>v8::StartupData { const char* data; int raw_size; }\<close>. The bytes \<open>data\<close> points to
  are a list; a null pointer is \<open>None\<close>.\<close>

record StartupData =
  data :: "byte list option"
  raw_size :: int32

text \<open>\<^verbatim>\<open>SnapshotData\<close>: the payload and the chunk sizes of its reservations.\<close>

record SnapshotData =
  RawData :: "byte list"
  Reservations :: "uint32 list"

text \<open>\<^verbatim>\<open>Vector<const byte>(data->data + start, length)\<close>: a view into the blob, kept as
  the offset of its first byte from \<^verbatim>\<open>data->data\<close> and its \<^verbatim>\<open>size_t\<close> length.\<close>

record ByteVector =
  vec_start :: nat
  vec_length :: nat

record Isolate =
  snapshot_blob :: "StartupData option"

datatype platform = Arch32 | Arch64

text \<open>What the build fixes and \<^verbatim>\<open>snapshot.cc\<close> only calls: the pointer size, the version
  text of \<^verbatim>\<open>Version::GetString\<close>, \<^verbatim>\<open>Checksum\<close> of \<^verbatim>\<open>snapshot-utils.h\<close>, and
  \<^verbatim>\<open>SnapshotCompression::Compress\<close> (the identity where \<^verbatim>\<open>V8_SNAPSHOT_COMPRESSION\<close> is not
  defined).\<close>

record Build =
  arch :: platform
  version :: "byte list"
  Checksum :: "byte list \<Rightarrow> uint32"
  Compress :: "SnapshotData \<Rightarrow> SnapshotData"

text \<open>One call of \<^verbatim>\<open>PrintF\<close>: the format and its integer arguments.\<close>

datatype printf = PrintF string "int list"

definition and_then :: "failure + 'a \<Rightarrow> ('a \<Rightarrow> failure + 'b) \<Rightarrow> failure + 'b" where
  "and_then m f = (case m of Inl e \<Rightarrow> Inl e | Inr x \<Rightarrow> f x)"

section \<open>Memory\<close>

text \<open>Modelled from the spec: \<^verbatim>\<open>base::ReadLittleEndianValue\<close> and
  \<^verbatim>\<open>base::WriteLittleEndianValue\<close> (\<^verbatim>\<open>src/base/memory.h\<close>) are not among the sources. All
  integers of the header are little-endian, 4 bytes each.\<close>

definition WriteLittleEndianValue :: "uint32 \<Rightarrow> byte list" where
  "WriteLittleEndianValue v =
     [ucast v, ucast (drop_bit 8 v), ucast (drop_bit 16 v), ucast (drop_bit 24 v)]"

definition ReadLittleEndianValue :: "byte list \<Rightarrow> uint32" where
  "ReadLittleEndianValue bs =
     ucast (bs ! 0) OR push_bit 8 (ucast (bs ! 1)) OR push_bit 16 (ucast (bs ! 2))
       OR push_bit 24 (ucast (bs ! 3))"

text \<open>Storing \<open>bs\<close> at offset \<open>off\<close> of a buffer; outside the buffer it is an
  out-of-bounds write.\<close>

definition write_bytes :: "byte list \<Rightarrow> nat \<Rightarrow> byte list \<Rightarrow> failure + byte list" where
  "write_bytes buf off bs =
     (if off + length bs \<le> length buf
      then Inr (take off buf @ bs @ drop (off + length bs) buf)
      else Inl OutOfBounds)"

definition read_bytes :: "byte list \<Rightarrow> nat \<Rightarrow> nat \<Rightarrow> failure + byte list" where
  "read_bytes buf off n =
     (if off + n \<le> length buf then Inr (take n (drop off buf)) else Inl OutOfBounds)"

text \<open>\<^verbatim>\<open>new char[n]\<close>: \<open>n\<close> bytes that nothing has initialised; \<open>heap k\<close> is whatever the
  allocator left in byte \<open>k\<close>.\<close>

definition new_char_array :: "(nat \<Rightarrow> byte) \<Rightarrow> nat \<Rightarrow> byte list" where
  "new_char_array heap n = map heap [0..<n]"

definition memset :: "byte list \<Rightarrow> nat \<Rightarrow> byte \<Rightarrow> nat \<Rightarrow> failure + byte list" where
  "memset buf off c n = write_bytes buf off (replicate n c)"

definition CopyBytes :: "byte list \<Rightarrow> nat \<Rightarrow> byte list \<Rightarrow> nat \<Rightarrow> failure + byte list" where
  "CopyBytes dst off src n =
     (if n \<le> length src then write_bytes dst off (take n src) else Inl OutOfBounds)"

section \<open>\<^verbatim>\<open>SnapshotImpl\<close>: the layout\<close>

definition kUInt32Size :: uint32 where "kUInt32Size = 4"
definition kInt32Size :: uint32 where "kInt32Size = 4"

definition kNumberOfContextsOffset :: uint32 where
  "kNumberOfContextsOffset = 0"
definition kRehashabilityOffset :: uint32 where
  "kRehashabilityOffset = kNumberOfContextsOffset + kUInt32Size"
definition kChecksumOffset :: uint32 where
  "kChecksumOffset = kRehashabilityOffset + kUInt32Size"
definition kVersionStringOffset :: uint32 where
  "kVersionStringOffset = kChecksumOffset + kUInt32Size"
definition kVersionStringLength :: uint32 where
  "kVersionStringLength = 64"
definition kReadOnlyOffsetOffset :: uint32 where
  "kReadOnlyOffsetOffset = kVersionStringOffset + kVersionStringLength"
definition kFirstContextOffsetOffset :: uint32 where
  "kFirstContextOffsetOffset = kReadOnlyOffsetOffset + kUInt32Size"

text \<open>Modelled from the spec: \<^verbatim>\<open>kSystemPointerSize\<close> and the macro \<^verbatim>\<open>POINTER_SIZE_ALIGN\<close>
  (\<^verbatim>\<open>src/common/globals.h\<close>) are not among the sources. The header end is padded up to the
  pointer alignment of the platform, 4 or 8 bytes:
  \<^verbatim>\<open>(value + kPointerAlignmentMask) & ~kPointerAlignmentMask\<close>, narrowed to \<^verbatim>\<open>uint32_t\<close>.\<close>

fun kSystemPointerSize :: "platform \<Rightarrow> uint32" where
  "kSystemPointerSize Arch32 = 4"
| "kSystemPointerSize Arch64 = 8"

definition kPointerAlignmentMask :: "platform \<Rightarrow> uint32" where
  "kPointerAlignmentMask p = kSystemPointerSize p - 1"

definition POINTER_SIZE_ALIGN :: "platform \<Rightarrow> uint32 \<Rightarrow> uint32" where
  "POINTER_SIZE_ALIGN p v = (v + kPointerAlignmentMask p) AND NOT (kPointerAlignmentMask p)"

text \<open>The products \<^verbatim>\<open>num_contexts * kInt32Size\<close> and \<^verbatim>\<open>index * kInt32Size\<close> are computed on
  32 bits; they wrap here.\<close>

definition StartupSnapshotOffset :: "platform \<Rightarrow> uint32 \<Rightarrow> uint32" where
  "StartupSnapshotOffset p num_contexts =
     POINTER_SIZE_ALIGN p (kFirstContextOffsetOffset + num_contexts * kInt32Size)"

definition ContextSnapshotOffsetOffset :: "uint32 \<Rightarrow> uint32" where
  "ContextSnapshotOffsetOffset index = kFirstContextOffsetOffset + index * kInt32Size"

text \<open>Modelled from the spec: the macro \<^verbatim>\<open>CHECK_LT\<close> (\<^verbatim>\<open>src/base/logging.h\<close>) is not among the
  sources. Where the code gives it a \<^verbatim>\<open>uint32_t\<close> and the \<^verbatim>\<open>int\<close> \<^verbatim>\<open>raw_size\<close> without a cast,
  the bound check against the total length compares the two values, so nothing is below a
  negative \<^verbatim>\<open>raw_size\<close>. Where the code casts \<^verbatim>\<open>raw_size\<close> to \<^verbatim>\<open>uint32_t\<close> first, the model
  compares words.\<close>

definition CHECK_LT_uint32_int :: "uint32 \<Rightarrow> int32 \<Rightarrow> bool" where
  "CHECK_LT_uint32_int a b = (uint a < sint b)"

definition GetHeaderValue :: "StartupData \<Rightarrow> uint32 \<Rightarrow> failure + uint32" where
  "GetHeaderValue d offset =
     (case data d of
        None \<Rightarrow> Inl OutOfBounds
      | Some bs \<Rightarrow> and_then (read_bytes bs (unat offset) 4) (\<lambda>v. Inr (ReadLittleEndianValue v)))"

definition SetHeaderValue :: "byte list \<Rightarrow> uint32 \<Rightarrow> uint32 \<Rightarrow> failure + byte list" where
  "SetHeaderValue buf offset v = write_bytes buf (unat offset) (WriteLittleEndianValue v)"

text \<open>\<^verbatim>\<open>data->raw_size - kChecksumStart\<close> is computed as \<^verbatim>\<open>uint32_t\<close> and widened to the
  \<^verbatim>\<open>size_t\<close> length of the view.\<close>

definition ChecksummedContent :: "StartupData \<Rightarrow> ByteVector" where
  "ChecksummedContent d =
     \<lparr>vec_start = unat kVersionStringOffset,
      vec_length = unat (raw_size d - kVersionStringOffset)\<rparr>"

text \<open>The bytes a view denotes in the blob it was taken from.\<close>

definition VectorBytes :: "StartupData \<Rightarrow> ByteVector \<Rightarrow> failure + byte list" where
  "VectorBytes d v =
     (case data d of
        None \<Rightarrow> Inl OutOfBounds
      | Some bs \<Rightarrow> read_bytes bs (vec_start v) (vec_length v))"

section \<open>Extraction\<close>

text \<open>The \<^verbatim>\<open>DCHECK\<close>s of the source are compiled out of a release build and are not part of
  the model.\<close>

definition ExtractNumContexts :: "StartupData \<Rightarrow> failure + uint32" where
  "ExtractNumContexts d =
     (if CHECK_LT_uint32_int kNumberOfContextsOffset (raw_size d)
      then GetHeaderValue d kNumberOfContextsOffset
      else Inl CheckFailed)"

definition HasContextSnapshot :: "Isolate \<Rightarrow> nat \<Rightarrow> failure + bool" where
  "HasContextSnapshot isolate index =
     (case snapshot_blob isolate of
        None \<Rightarrow> Inr False
      | Some blob \<Rightarrow>
          (case data blob of
             None \<Rightarrow> Inr False
           | Some bs \<Rightarrow>
               and_then (ExtractNumContexts blob) (\<lambda>num_contexts.
                 Inr (index < unat num_contexts))))"

definition VerifyChecksum :: "Build \<Rightarrow> StartupData \<Rightarrow> failure + bool" where
  "VerifyChecksum B d =
     and_then (GetHeaderValue d kChecksumOffset) (\<lambda>expected.
     and_then (VectorBytes d (ChecksummedContent d)) (\<lambda>content.
       Inr (Checksum B content = expected)))"

definition ExtractContextOffset :: "StartupData \<Rightarrow> uint32 \<Rightarrow> failure + uint32" where
  "ExtractContextOffset d index =
     and_then (GetHeaderValue d (ContextSnapshotOffsetOffset index)) (\<lambda>context_offset.
       if context_offset < raw_size d then Inr context_offset else Inl CheckFailed)"

definition ExtractData :: "StartupData \<Rightarrow> uint32 \<Rightarrow> uint32 \<Rightarrow> failure + ByteVector" where
  "ExtractData snapshot start_offset end_offset =
     (if \<not> start_offset < end_offset then Inl CheckFailed
      else if \<not> CHECK_LT_uint32_int end_offset (raw_size snapshot) then Inl CheckFailed
      else Inr \<lparr>vec_start = unat start_offset, vec_length = unat (end_offset - start_offset)\<rparr>)"

definition ExtractStartupData :: "platform \<Rightarrow> StartupData \<Rightarrow> failure + ByteVector" where
  "ExtractStartupData p d =
     and_then (ExtractNumContexts d) (\<lambda>num_contexts.
     and_then (GetHeaderValue d kReadOnlyOffsetOffset) (\<lambda>read_only_offset.
       ExtractData d (StartupSnapshotOffset p num_contexts) read_only_offset))"

definition ExtractReadOnlyData :: "StartupData \<Rightarrow> failure + ByteVector" where
  "ExtractReadOnlyData d =
     and_then (GetHeaderValue d kReadOnlyOffsetOffset) (\<lambda>read_only_offset.
     and_then (GetHeaderValue d (ContextSnapshotOffsetOffset 0)) (\<lambda>context_offset.
       ExtractData d read_only_offset context_offset))"

definition ExtractContextData :: "StartupData \<Rightarrow> uint32 \<Rightarrow> failure + ByteVector" where
  "ExtractContextData d index =
     and_then (ExtractNumContexts d) (\<lambda>num_contexts.
       if \<not> index < num_contexts then Inl CheckFailed
       else
         and_then (ExtractContextOffset d index) (\<lambda>context_offset.
         and_then
           (if index = num_contexts - 1 then Inr (raw_size d)
            else
              and_then (ExtractContextOffset d (index + 1)) (\<lambda>next.
                if CHECK_LT_uint32_int next (raw_size d) then Inr next else Inl CheckFailed))
           (\<lambda>next_context_offset.
              Inr \<lparr>vec_start = unat context_offset,
                   vec_length = unat (next_context_offset - context_offset)\<rparr>)))"

section \<open>The version check\<close>

text \<open>Modelled from the spec: \<^verbatim>\<open>Version::GetString\<close> (\<^verbatim>\<open>src/utils/version.cc\<close>) is not among
  the sources. On a buffer of 64 zero bytes it leaves the version of the running build,
  null-padded to 64 bytes: at most 63 characters of the text and zeros behind them.\<close>

definition Version_GetString :: "Build \<Rightarrow> byte list" where
  "Version_GetString B =
     take 63 (version B) @ replicate (64 - length (take 63 (version B))) 0"

text \<open>\<^verbatim>\<open>strncmp\<close>: compares at most \<open>n\<close> characters and stops behind the first
  difference or the first zero.\<close>

fun strncmp :: "byte list \<Rightarrow> byte list \<Rightarrow> nat \<Rightarrow> failure + int" where
  "strncmp s1 s2 0 = Inr 0"
| "strncmp (a # s1) (b # s2) (Suc n) =
     (if a \<noteq> b then Inr (uint a - uint b)
      else if a = 0 then Inr 0
      else strncmp s1 s2 n)"
| "strncmp s1 s2 (Suc n) = Inl OutOfBounds"

text \<open>What \<^verbatim>\<open>%.*s\<close> prints of a character array: up to \<open>n\<close> characters, ending at the
  first zero.\<close>

fun printf_precision_s :: "nat \<Rightarrow> byte list \<Rightarrow> failure + byte list" where
  "printf_precision_s 0 s = Inr []"
| "printf_precision_s (Suc n) [] = Inl OutOfBounds"
| "printf_precision_s (Suc n) (c # s) =
     (if c = 0 then Inr []
      else and_then (printf_precision_s n s) (\<lambda>r. Inr (c # r)))"

definition CheckVersion :: "Build \<Rightarrow> StartupData \<Rightarrow> failure + unit" where
  "CheckVersion B d =
     (let version_buf = Version_GetString B in
      if \<not> kVersionStringOffset + kVersionStringLength < raw_size d
      then Inl CheckFailed
      else
        (case data d of
           None \<Rightarrow> Inl OutOfBounds
         | Some bs \<Rightarrow>
             and_then
               (strncmp version_buf (drop (unat kVersionStringOffset) bs)
                  (unat kVersionStringLength))
               (\<lambda>r.
                  if r \<noteq> 0 then
                    and_then (printf_precision_s (unat kVersionStringLength) version_buf)
                      (\<lambda>binary_version.
                    and_then
                      (printf_precision_s (unat kVersionStringLength)
                         (drop (unat kVersionStringOffset) bs))
                      (\<lambda>snapshot_version.
                    and_then (ExtractNumContexts d) (\<lambda>num_contexts.
                      Inl (VersionMismatch binary_version snapshot_version
                             (sint (raw_size d)) (sint num_contexts)))))
                  else Inr ())))"

section \<open>Assembling a blob\<close>

definition chunk_total :: "SnapshotData \<Rightarrow> uint32 \<Rightarrow> uint32" where
  "chunk_total s acc = fold (\<lambda>chunk_size t. t + chunk_size) (Reservations s) acc"

definition ProfileDeserialization ::
  "bool \<Rightarrow> SnapshotData \<Rightarrow> SnapshotData \<Rightarrow> SnapshotData list \<Rightarrow> printf list" where
  "ProfileDeserialization FLAG_profile_deserialization read_only_snapshot startup_snapshot
       context_snapshots =
     (if FLAG_profile_deserialization then
        [PrintF ''Deserialization will reserve:\<newline>'' [],
         PrintF ''%10d bytes per isolate\<newline>''
           [sint (chunk_total startup_snapshot (chunk_total read_only_snapshot 0))]]
        @ map (\<lambda>i. PrintF ''%10d bytes per context #%zu\<newline>''
                      [sint (chunk_total (context_snapshots ! i) 0), int i])
            [0..<length context_snapshots]
      else [])"

text \<open>The loop over the contexts, lines 293 to 309: \<open>i\<close> is the loop counter, and the list
  holds \<^verbatim>\<open>(*context_snapshots)[i]\<close> with \<^verbatim>\<open>context_snapshots_in[i]\<close> from \<open>i\<close> on.\<close>

fun WriteContextSnapshots ::
  "bool \<Rightarrow> (SnapshotData \<times> SnapshotData) list \<Rightarrow> uint32 \<Rightarrow> byte list \<Rightarrow> uint32 \<Rightarrow>
     printf list \<Rightarrow> failure + (byte list \<times> uint32 \<times> printf list)" where
  "WriteContextSnapshots FLAG_profile_deserialization [] i buf payload_offset out =
     Inr (buf, payload_offset, out)"
| "WriteContextSnapshots FLAG_profile_deserialization
       ((context_snapshot, context_snapshot_in) # rest) i buf payload_offset out =
     (case SetHeaderValue buf (ContextSnapshotOffsetOffset i) payload_offset of
        Inl e \<Rightarrow> Inl e
      | Inr buf1 \<Rightarrow>
          (let payload_length = (of_nat (length (RawData context_snapshot)) :: uint32) in
           case CopyBytes buf1 (unat payload_offset) (RawData context_snapshot)
                  (unat payload_length) of
             Inl e \<Rightarrow> Inl e
           | Inr buf2 \<Rightarrow>
               WriteContextSnapshots FLAG_profile_deserialization rest (i + 1) buf2
                 (payload_offset + payload_length)
                 (out @
                  (if FLAG_profile_deserialization then
                     [PrintF ''%10d bytes in %d chunks for context #%d\<newline>''
                        [sint payload_length,
                         sint (of_nat (length (Reservations context_snapshot_in)) :: uint32),
                         sint i]]
                   else []))))"

text \<open>Lines 250 to 252: the allocation and the \<^verbatim>\<open>memset\<close> of the bytes before the
  payload.\<close>

definition AllocateBlob :: "(nat \<Rightarrow> byte) \<Rightarrow> platform \<Rightarrow> uint32 \<Rightarrow> uint32 \<Rightarrow> failure + byte list" where
  "AllocateBlob heap p num_contexts total_length =
     memset (new_char_array heap (unat total_length)) 0 0
       (unat (StartupSnapshotOffset p num_contexts))"

text \<open>\<^verbatim>\<open>Snapshot::CreateSnapshotBlob\<close>, lines 204 to 319. \<open>heap\<close> is what the allocator left in
  the fresh buffer, and the result carries the lines printed beside the blob. A write outside
  the allocated bytes, which happens only when a 32-bit sum of the lengths wraps, ends in
  \<open>OutOfBounds\<close>. \<^verbatim>\<open>Version::GetString\<close> writes into the 64 bytes that the \<^verbatim>\<open>memset\<close> before
  it zeroed.\<close>

definition CreateSnapshotBlob ::
  "Build \<Rightarrow> bool \<Rightarrow> (nat \<Rightarrow> byte) \<Rightarrow> SnapshotData \<Rightarrow> SnapshotData \<Rightarrow> SnapshotData list \<Rightarrow> bool \<Rightarrow>
     failure + (StartupData \<times> printf list)" where
  "CreateSnapshotBlob B FLAG_profile_deserialization heap startup_snapshot_in
       read_only_snapshot_in context_snapshots_in can_be_rehashed =
     (let startup_snapshot = Compress B startup_snapshot_in;
          read_only_snapshot = Compress B read_only_snapshot_in;
          context_snapshots = map (Compress B) context_snapshots_in;
          num_contexts = (of_nat (length context_snapshots) :: uint32);
          startup_snapshot_offset = StartupSnapshotOffset (arch B) num_contexts;
          total_length =
            fold (\<lambda>context_snapshot t. t + of_nat (length (RawData context_snapshot)))
              context_snapshots
              (startup_snapshot_offset + of_nat (length (RawData startup_snapshot))
                 + of_nat (length (RawData read_only_snapshot)));
          out0 = ProfileDeserialization FLAG_profile_deserialization read_only_snapshot_in
                   startup_snapshot_in context_snapshots_in
      in
      and_then (AllocateBlob heap (arch B) num_contexts total_length) (\<lambda>buf0.
      and_then (SetHeaderValue buf0 kNumberOfContextsOffset num_contexts) (\<lambda>buf1.
      and_then (SetHeaderValue buf1 kRehashabilityOffset (if can_be_rehashed then 1 else 0))
        (\<lambda>buf2.
      and_then (memset buf2 (unat kVersionStringOffset) 0 (unat kVersionStringLength))
        (\<lambda>buf3.
      and_then (write_bytes buf3 (unat kVersionStringOffset) (Version_GetString B)) (\<lambda>buf4.
      let payload_offset = startup_snapshot_offset;
          payload_length = (of_nat (length (RawData startup_snapshot)) :: uint32)
      in
      and_then (CopyBytes buf4 (unat payload_offset) (RawData startup_snapshot)
                  (unat payload_length)) (\<lambda>buf5.
      let out1 = out0 @
            (if FLAG_profile_deserialization then
               [PrintF ''Snapshot blob consists of:\<newline>%10d bytes in %d chunks for startup\<newline>''
                  [sint payload_length,
                   sint (of_nat (length (Reservations startup_snapshot_in)) :: uint32)]]
             else []);
          payload_offset = payload_offset + payload_length
      in
      and_then (SetHeaderValue buf5 kReadOnlyOffsetOffset payload_offset) (\<lambda>buf6.
      let payload_length = (of_nat (length (RawData read_only_snapshot)) :: uint32) in
      and_then (CopyBytes buf6 (unat payload_offset) (RawData read_only_snapshot)
                  (unat payload_length)) (\<lambda>buf7.
      let out2 = out1 @
            (if FLAG_profile_deserialization then
               [PrintF ''%10d bytes for read-only\<newline>'' [sint payload_length]]
             else []);
          payload_offset = payload_offset + payload_length
      in
      and_then
        (WriteContextSnapshots FLAG_profile_deserialization
           (take (unat num_contexts) (zip context_snapshots context_snapshots_in))
           0 buf7 payload_offset out2)
        (\<lambda>(buf8, payload_offset, out3).
      let result = \<lparr>data = Some buf8, raw_size = total_length\<rparr> in
      and_then (VectorBytes result (ChecksummedContent result)) (\<lambda>content.
      and_then (SetHeaderValue buf8 kChecksumOffset (Checksum B content)) (\<lambda>buf9.
        Inr (result\<lparr>data := Some buf9\<rparr>, out3)))))))))))))"

section \<open>The layout of an assembled blob\<close>

text \<open>The padding between the context offsets and the startup data: on a 64-bit build
  the header ends on a multiple of 4 that need not be a multiple of 8.\<close>

definition padding :: "platform \<Rightarrow> nat \<Rightarrow> nat" where
  "padding p n = (case p of Arch32 \<Rightarrow> 0 | Arch64 \<Rightarrow> if even n then 0 else 4)"

text \<open>Where the contexts start when the first one starts at \<open>off\<close>.\<close>

fun context_offsets :: "nat \<Rightarrow> byte list list \<Rightarrow> nat list" where
  "context_offsets off [] = []"
| "context_offsets off (c # cs) = off # context_offsets (off + length c) cs"

text \<open>The layout comment of \<^verbatim>\<open>SnapshotImpl\<close> (lines 48 to 61), written out for the payloads
  \<open>s\<close>, \<open>r\<close> and \<open>cs\<close>: first the part behind the checksum field, then the whole blob.\<close>

definition blob_checksummed :: "Build \<Rightarrow> byte list \<Rightarrow> byte list \<Rightarrow> byte list list \<Rightarrow> byte list" where
  "blob_checksummed B s r cs =
     (let n = length cs; so = 80 + 4 * n + padding (arch B) n in
      Version_GetString B
      @ WriteLittleEndianValue (of_nat (so + length s))
      @ concat (map (\<lambda>x. WriteLittleEndianValue (of_nat x))
          (context_offsets (so + length s + length r) cs))
      @ replicate (padding (arch B) n) 0
      @ s @ r @ concat cs)"

definition blob_image :: "Build \<Rightarrow> byte list \<Rightarrow> byte list \<Rightarrow> byte list list \<Rightarrow> bool \<Rightarrow> byte list" where
  "blob_image B s r cs can_be_rehashed =
     WriteLittleEndianValue (of_nat (length cs))
     @ WriteLittleEndianValue (if can_be_rehashed then 1 else 0)
     @ WriteLittleEndianValue (Checksum B (blob_checksummed B s r cs))
     @ blob_checksummed B s r cs"

text \<open>The sizes for which no 32-bit sum of \<^verbatim>\<open>CreateSnapshotBlob\<close> wraps and \<^verbatim>\<open>raw_size\<close> is a
  positive \<^verbatim>\<open>int\<close>.\<close>

definition fits_int32 :: "Build \<Rightarrow> SnapshotData \<Rightarrow> SnapshotData \<Rightarrow> SnapshotData list \<Rightarrow> bool" where
  "fits_int32 B startup_in read_only_in contexts_in \<longleftrightarrow>
     88 + 4 * length contexts_in
       + length (RawData (Compress B startup_in))
       + length (RawData (Compress B read_only_in))
       + sum_list (map (\<lambda>c. length (RawData (Compress B c))) contexts_in) < 2 ^ 31"

section \<open>Concrete builds and segments\<close>

text \<open>A 64-bit build without compression, with a byte sum in the place of \<^verbatim>\<open>Checksum\<close>; an
  allocator whose fresh memory holds \<^verbatim>\<open>0xAA\<close>; segments with two reservations.\<close>

definition example_checksum :: "byte list \<Rightarrow> uint32" where
  "example_checksum bs = fold (\<lambda>b acc. acc + ucast b) bs 0"

definition no_compression :: "SnapshotData \<Rightarrow> SnapshotData" where
  "no_compression s = s"

definition example_build :: Build where
  "example_build =
     \<lparr>arch = Arch64, version = [0x38, 0x2E, 0x31], Checksum = example_checksum,
      Compress = no_compression\<rparr>"

definition example_heap :: "nat \<Rightarrow> byte" where
  "example_heap k = 0xAA"

definition segment :: "byte list \<Rightarrow> SnapshotData" where
  "segment bs = \<lparr>RawData = bs, Reservations = [16, 32]\<rparr>"

text \<open>An attached blob of size 0, and one that holds only the context count 2.\<close>

definition empty_blob :: StartupData where
  "empty_blob = \<lparr>data = Some [], raw_size = 0\<rparr>"

definition header_only_blob :: StartupData where
  "header_only_blob = \<lparr>data = Some [2, 0, 0, 0], raw_size = 4\<rparr>"

text \<open>A blob of 104 bytes with two contexts whose offset of context 1 (96) lies before the
  offset of context 0 (100).\<close>

definition corrupt_blob :: StartupData where
  "corrupt_blob =
     \<lparr>data = Some ([2, 0, 0, 0, 0, 0, 0, 0, 0, 0, 0, 0] @ replicate 64 0
                    @ [92, 0, 0, 0, 100, 0, 0, 0, 96, 0, 0, 0] @ replicate 16 0),
      raw_size = 104\<rparr>"

text \<open>A blob of 88 bytes whose version field holds the text of \<open>example_build\<close>, a zero,
  and the character \<^verbatim>\<open>X\<close> behind it.\<close>

definition stale_version_blob :: StartupData where
  "stale_version_blob =
     \<lparr>data = Some ([1, 0, 0, 0, 0, 0, 0, 0, 0, 0, 0, 0] @ [0x38, 0x2E, 0x31, 0, 0x58]
                    @ replicate 59 0 @ replicate 12 0),
      raw_size = 88\<rparr>"

text \<open>The blob of the segments \<^verbatim>\<open>S1\<close>, \<^verbatim>\<open>RO1\<close>, \<^verbatim>\<open>C0AAA\<close> and \<^verbatim>\<open>C1B\<close> under \<open>example_build\<close>,
  rehashable.\<close>

definition example_bytes :: "byte list" where
  "example_bytes =
     [2, 0, 0, 0, 1, 0, 0, 0, 242, 4, 0, 0] @ [0x38, 0x2E, 0x31] @ replicate 61 0
     @ [90, 0, 0, 0, 93, 0, 0, 0, 98, 0, 0, 0]
     @ [0x53, 0x31] @ [0x52, 0x4F, 0x31] @ [0x43, 0x30, 0x41, 0x41, 0x41]
     @ [0x43, 0x31, 0x42]"

definition example_blob :: StartupData where
  "example_blob = \<lparr>data = Some example_bytes, raw_size = 101\<rparr>"

definition example_startup :: SnapshotData where
  "example_startup = segment [0x53, 0x31]"

definition example_read_only :: SnapshotData where
  "example_read_only = segment [0x52, 0x4F, 0x31]"

definition example_contexts :: "SnapshotData list" where
  "example_contexts = [segment [0x43, 0x30, 0x41, 0x41, 0x41], segment [0x43, 0x31, 0x42]]"

text \<open>The blob of \<^verbatim>\<open>S1\<close> and \<^verbatim>\<open>RO1\<close> without any context.\<close>

definition blob_without_contexts :: StartupData where
  "blob_without_contexts =
     \<lparr>data = Some ([0, 0, 0, 0, 1, 0, 0, 0, 63, 2, 0, 0] @ [0x38, 0x2E, 0x31] @ replicate 61 0
                    @ [82, 0, 0, 0] @ [0x53, 0x31] @ [0x52, 0x4F, 0x31]),
      raw_size = 85\<rparr>"

text \<open>Another allocator: fresh memory holds the low byte of each address.\<close>

definition counting_heap :: "nat \<Rightarrow> byte" where
  "counting_heap k = of_nat k"


text \<open>A blob of one context whose startup and read-only segments are empty: the offsets at
  76 and 80 both hold the startup offset 88.\<close>

definition empty_startup_blob :: StartupData where
  "empty_startup_blob =
     \<lparr>data = Some ([1, 0, 0, 0, 0, 0, 0, 0, 0, 0, 0, 0] @ replicate 64 0
                    @ [88, 0, 0, 0, 88, 0, 0, 0, 0, 0, 0, 0] @ [0x43, 0x30]),
      raw_size = 90\<rparr>"

text \<open>A blob of 88 bytes whose version field holds \<^verbatim>\<open>9.0\<close>.\<close>

definition other_version_bytes :: "byte list" where
  "other_version_bytes =
     [1, 0, 0, 0, 0, 0, 0, 0, 0, 0, 0, 0] @ [0x39, 0x2E, 0x30] @ replicate 61 0 @ replicate 12 0"

definition other_version_blob :: StartupData where
  "other_version_blob = \<lparr>data = Some other_version_bytes, raw_size = 88\<rparr>"

text \<open>The bytes of \<open>example_blob\<close> with the context count and the rehashability field
  overwritten.\<close>

definition tampered_bytes :: "byte list" where
  "tampered_bytes = [9, 9, 9, 9, 7, 7, 7, 7] @ drop 8 example_bytes"

section \<open>Auxiliary notions\<close>

text \<open>The C string an array of characters holds: the characters before the first zero.\<close>

definition c_str :: "byte list \<Rightarrow> byte list" where
  "c_str s = takeWhile (\<lambda>c. c \<noteq> 0) s"

text \<open>The offsets a blob records, in layout order: the startup offset computed from the
  context count, the stored read-only offset, the stored context offsets, and the total
  length \<^verbatim>\<open>raw_size\<close>.\<close>

fun GetHeaderValues :: "StartupData \<Rightarrow> uint32 list \<Rightarrow> failure + uint32 list" where
  "GetHeaderValues d [] = Inr []"
| "GetHeaderValues d (offset # offsets) =
     (case GetHeaderValue d offset of
        Inl e \<Rightarrow> Inl e
      | Inr v \<Rightarrow>
          (case GetHeaderValues d offsets of
             Inl e \<Rightarrow> Inl e
           | Inr vs \<Rightarrow> Inr (v # vs)))"

definition recorded_offsets :: "platform \<Rightarrow> StartupData \<Rightarrow> failure + nat list" where
  "recorded_offsets p d =
     and_then (ExtractNumContexts d) (\<lambda>num_contexts.
     and_then
       (GetHeaderValues d
          (kReadOnlyOffsetOffset
           # map (\<lambda>i. ContextSnapshotOffsetOffset (of_nat i)) [0..<unat num_contexts]))
       (\<lambda>vs. Inr (unat (StartupSnapshotOffset p num_contexts) # map unat vs
                    @ [unat (raw_size d)])))"

section \<open>Basic facts\<close>

lemma and_then_Inr [simp]: "and_then (Inr x) f = f x"
  by (simp add: and_then_def)

lemma and_then_Inl [simp]: "and_then (Inl e) f = Inl e"
  by (simp add: and_then_def)

lemma length_WriteLittleEndianValue [simp]: "length (WriteLittleEndianValue v) = 4"
  by (simp add: WriteLittleEndianValue_def)

lemma Read_Write_LittleEndianValue [simp]:
  "ReadLittleEndianValue (WriteLittleEndianValue v) = v"
proof (rule bit_word_eqI)
  fix k :: nat
  assume "k < LENGTH(32)"
  then consider "k < 8" | "8 \<le> k" "k < 16" | "16 \<le> k" "k < 24" | "24 \<le> k" "k < 32"
    by fastforce
  then show "bit (ReadLittleEndianValue (WriteLittleEndianValue v)) k \<longleftrightarrow> bit v k"
    by cases
      (auto simp: ReadLittleEndianValue_def WriteLittleEndianValue_def bit_simps)
qed

lemma ReadLittleEndianValue_append [simp]:
  "ReadLittleEndianValue (WriteLittleEndianValue v @ R) = v"
proof -
  have "ReadLittleEndianValue (WriteLittleEndianValue v @ R)
      = ReadLittleEndianValue (WriteLittleEndianValue v)"
    by (simp add: ReadLittleEndianValue_def WriteLittleEndianValue_def)
  then show ?thesis by simp
qed

lemma write_bytes_here:
  "length X = length Y \<Longrightarrow> write_bytes (X @ R) 0 Y = Inr (Y @ R)"
  by (simp add: write_bytes_def)

lemma write_bytes_at:
  "length A = off \<Longrightarrow> length X = length Y \<Longrightarrow> write_bytes (A @ X @ R) off Y = Inr (A @ Y @ R)"
  by (simp add: write_bytes_def)

lemma read_bytes_at:
  "length A = off \<Longrightarrow> length X = n \<Longrightarrow> read_bytes (A @ X @ R) off n = Inr X"
  by (simp add: read_bytes_def)

lemma not_mask_align:
  fixes w :: uint32
  shows "w AND NOT (mask n) = push_bit n (drop_bit n w)"
  by (rule bit_word_eqI) (auto simp: bit_simps)

lemma unat_align8:
  fixes w :: uint32
  assumes "unat w < 2 ^ 31"
  shows "unat ((w + 7) AND NOT 7) = (unat w + 7) div 8 * 8"
proof -
  have s: "unat (w + 7) = unat w + 7"
    using assms by (simp add: unat_add_lem [THEN iffD1])
  have d: "unat (drop_bit 3 (w + 7)) = (unat w + 7) div 8"
    by (simp add: unat_div s drop_bit_eq_div)
  have "unat (drop_bit 3 (w + 7) * 8) = (unat w + 7) div 8 * 8"
    using assms by (simp add: unat_word_ariths d)
  then have "unat (push_bit 3 (drop_bit 3 (w + 7))) = (unat w + 7) div 8 * 8"
    by (simp add: push_bit_eq_mult)
  moreover have "(7 :: uint32) = mask 3"
    by (simp add: mask_eq_exp_minus_1)
  ultimately show ?thesis
    by (simp only: not_mask_align)
qed

lemma unat_align4:
  fixes w :: uint32
  assumes "unat w < 2 ^ 31"
  shows "unat ((w + 3) AND NOT 3) = (unat w + 3) div 4 * 4"
proof -
  have s: "unat (w + 3) = unat w + 3"
    using assms by (simp add: unat_add_lem [THEN iffD1])
  have d: "unat (drop_bit 2 (w + 3)) = (unat w + 3) div 4"
    by (simp add: unat_div s drop_bit_eq_div)
  have "unat (drop_bit 2 (w + 3) * 4) = (unat w + 3) div 4 * 4"
    using assms by (simp add: unat_word_ariths d)
  then have "unat (push_bit 2 (drop_bit 2 (w + 3))) = (unat w + 3) div 4 * 4"
    by (simp add: push_bit_eq_mult)
  moreover have "(3 :: uint32) = mask 2"
    by (simp add: mask_eq_exp_minus_1)
  ultimately show ?thesis
    by (simp only: not_mask_align)
qed

lemma unat_header_end:
  assumes "80 + 4 * n < 2 ^ 31"
  shows "unat (kFirstContextOffsetOffset + of_nat n * kInt32Size) = 80 + 4 * n"
proof -
  have "unat (of_nat (80 + 4 * n) :: uint32) = 80 + 4 * n"
    using assms by (subst unat_of_nat) simp
  moreover have "kFirstContextOffsetOffset + of_nat n * kInt32Size = (of_nat (80 + 4 * n) :: uint32)"
    by (simp add: kFirstContextOffsetOffset_def kReadOnlyOffsetOffset_def
        kVersionStringOffset_def kVersionStringLength_def kChecksumOffset_def
        kRehashabilityOffset_def kNumberOfContextsOffset_def kUInt32Size_def kInt32Size_def)
  ultimately show ?thesis by simp
qed

lemma unat_StartupSnapshotOffset:
  assumes "88 + 4 * n < 2 ^ 31"
  shows "unat (StartupSnapshotOffset p (of_nat n)) = 80 + 4 * n + padding p n"
proof -
  have h: "unat (kFirstContextOffsetOffset + of_nat n * kInt32Size) = 80 + 4 * n"
    using assms by (intro unat_header_end) simp
  then have lt: "unat (kFirstContextOffsetOffset + of_nat n * kInt32Size) < 2 ^ 31"
    using assms by simp
  show ?thesis
  proof (cases p)
    case Arch32
    then show ?thesis
      using unat_align4 [OF lt] h
      by (simp add: StartupSnapshotOffset_def POINTER_SIZE_ALIGN_def kPointerAlignmentMask_def
          padding_def)
  next
    case Arch64
    have "(80 + 4 * n + 7) div 8 * 8 = 80 + 4 * n + (if even n then 0 else 4)"
      by presburger
    with Arch64 show ?thesis
      using unat_align8 [OF lt] h
      by (simp add: StartupSnapshotOffset_def POINTER_SIZE_ALIGN_def kPointerAlignmentMask_def
          padding_def)
  qed
qed

lemma unat_ContextSnapshotOffsetOffset:
  "80 + 4 * k < 2 ^ 31 \<Longrightarrow> unat (ContextSnapshotOffsetOffset (of_nat k)) = 80 + 4 * k"
  unfolding ContextSnapshotOffsetOffset_def by (rule unat_header_end)

lemma unat_of_nat_small: "n < 2 ^ 32 \<Longrightarrow> unat (of_nat n :: uint32) = n"
  by (subst unat_of_nat) simp

lemma WriteContextSnapshots_layout:
  assumes "length A = 80 + 4 * k"
    and "length A + 4 * length zs + length P = off"
    and "length G = sum_list (map (\<lambda>z. length (RawData (fst z))) zs)"
    and "off + length G < 2 ^ 31"
  shows "\<exists>out'. WriteContextSnapshots f zs (of_nat k) (A @ replicate (4 * length zs) 0 @ P @ G)
            (of_nat off) out
         = Inr (A @ concat (map (\<lambda>x. WriteLittleEndianValue (of_nat x))
                      (context_offsets off (map (\<lambda>z. RawData (fst z)) zs)))
                  @ P @ concat (map (\<lambda>z. RawData (fst z)) zs),
                of_nat (off + length G), out')"
  using assms
proof (induction zs arbitrary: A k P G off out)
  case Nil
  then show ?case by simp
next
  case (Cons z zs)
  obtain c cin where z: "z = (c, cin)" by (cases z)
  let ?rc = "RawData c"
  let ?le = "WriteLittleEndianValue (of_nat off)"
  have len_rc: "length ?rc \<le> length G" using Cons.prems(3) z by simp
  have k31: "80 + 4 * k < 2 ^ 31" using Cons.prems by simp
  have off32: "off < 2 ^ 32" using Cons.prems(4) by simp
  have rc32: "length ?rc < 2 ^ 32" using Cons.prems(4) len_rc by simp
  have w1: "SetHeaderValue (A @ replicate (4 * length (z # zs)) 0 @ P @ G)
              (ContextSnapshotOffsetOffset (of_nat k)) (of_nat off)
            = Inr (A @ ?le @ replicate (4 * length zs) 0 @ P @ G)"
  proof -
    have "replicate (4 * length (z # zs)) (0::byte) = replicate 4 0 @ replicate (4 * length zs) 0"
      by (simp flip: replicate_add)
    then show ?thesis
      using Cons.prems(1) k31
      by (simp add: SetHeaderValue_def unat_ContextSnapshotOffsetOffset write_bytes_at)
  qed
  have w2: "CopyBytes (A @ ?le @ replicate (4 * length zs) 0 @ P @ G) (unat (of_nat off :: uint32))
               ?rc (unat (of_nat (length ?rc) :: uint32))
            = Inr ((A @ ?le) @ replicate (4 * length zs) 0 @ (P @ ?rc) @ drop (length ?rc) G)"
  proof -
    have "write_bytes ((A @ ?le @ replicate (4 * length zs) 0 @ P) @ take (length ?rc) G
             @ drop (length ?rc) G) off ?rc
          = Inr ((A @ ?le @ replicate (4 * length zs) 0 @ P) @ ?rc @ drop (length ?rc) G)"
      using Cons.prems(2) len_rc by (intro write_bytes_at) simp_all
    then show ?thesis
      using off32 rc32 by (simp add: CopyBytes_def unat_of_nat_small)
  qed
  have ih: "\<exists>out'. WriteContextSnapshots f zs (of_nat (Suc k))
               ((A @ ?le) @ replicate (4 * length zs) 0 @ (P @ ?rc) @ drop (length ?rc) G)
               (of_nat (off + length ?rc)) out2
            = Inr ((A @ ?le) @ concat (map (\<lambda>x. WriteLittleEndianValue (of_nat x))
                      (context_offsets (off + length ?rc) (map (\<lambda>z. RawData (fst z)) zs)))
                  @ (P @ ?rc) @ concat (map (\<lambda>z. RawData (fst z)) zs),
                of_nat (off + length ?rc + length (drop (length ?rc) G)), out')" for out2
    using Cons.prems z by (intro Cons.IH) simp_all
  have tot: "off + length ?rc + length (drop (length ?rc) G) = off + length G"
    using len_rc by simp
  have eq1: "of_nat (Suc k) = (of_nat k + 1 :: uint32)" by simp
  have eq2: "of_nat (off + length ?rc) = (of_nat off + of_nat (length ?rc) :: uint32)" by simp
  let ?out2 = "out @
     (if f then
        [PrintF ''%10d bytes in %d chunks for context #%d\<newline>''
           [sint (of_nat (length ?rc) :: uint32),
            sint (of_nat (length (Reservations cin)) :: uint32),
            sint (of_nat k :: uint32)]]
      else [])"
  have step: "WriteContextSnapshots f (z # zs) (of_nat k)
                (A @ replicate (4 * length (z # zs)) 0 @ P @ G) (of_nat off) out
              = WriteContextSnapshots f zs (of_nat k + 1)
                  ((A @ ?le) @ replicate (4 * length zs) 0 @ (P @ ?rc) @ drop (length ?rc) G)
                  (of_nat off + of_nat (length ?rc)) ?out2"
    unfolding z
    by (simp only: WriteContextSnapshots.simps w1 [unfolded z] w2 Let_def sum.case)
  from ih [of ?out2] obtain out' where
    "WriteContextSnapshots f zs (of_nat k + 1)
       ((A @ ?le) @ replicate (4 * length zs) 0 @ (P @ ?rc) @ drop (length ?rc) G)
       (of_nat off + of_nat (length ?rc)) ?out2
     = Inr ((A @ ?le) @ concat (map (\<lambda>x. WriteLittleEndianValue (of_nat x))
                      (context_offsets (off + length ?rc) (map (\<lambda>z. RawData (fst z)) zs)))
                  @ (P @ ?rc) @ concat (map (\<lambda>z. RawData (fst z)) zs),
            of_nat (off + length G), out')"
    unfolding tot eq1 eq2 by blast
  then show ?case
    unfolding step by (simp add: z)
qed

lemma length_Version_GetString [simp]: "length (Version_GetString B) = 64"
  by (simp add: Version_GetString_def)

lemma length_concat_offsets [simp]:
  "length (concat (map (\<lambda>x. WriteLittleEndianValue (of_nat x)) (context_offsets off cs)))
   = 4 * length cs"
  by (induction cs arbitrary: off) simp_all

lemma length_blob_checksummed:
  "length (blob_checksummed B s r cs)
   = 68 + 4 * length cs + padding (arch B) (length cs) + length s + length r + length (concat cs)"
  by (simp add: blob_checksummed_def Let_def)

lemma length_blob_image:
  "length (blob_image B s r cs rh)
   = 80 + 4 * length cs + padding (arch B) (length cs) + length s + length r + length (concat cs)"
  by (simp add: blob_image_def length_blob_checksummed)

lemma fold_total_length:
  "fold (\<lambda>c t. t + of_nat (length (RawData c))) cs (t0 :: uint32)
   = t0 + of_nat (sum_list (map (\<lambda>c. length (RawData c)) cs))"
  by (induction cs arbitrary: t0) (simp_all add: add.assoc)

lemma and_then_triple:
  assumes "\<exists>z. m = Inr (x, y, z)"
    and "\<And>z. \<exists>w. f (x, y, z) = Inr (R, w)"
  shows "\<exists>w. and_then m f = Inr (R, w)"
  using assms by auto

lemma padding_le: "padding p n \<le> 4"
  by (cases p) (simp_all add: padding_def)

lemma length_concat_sum: "length (concat xs) = sum_list (map length xs)"
  by (induction xs) simp_all

lemma CreateSnapshotBlob_layout:
  assumes fits: "fits_int32 B s_in r_in cs_in"
  shows "\<exists>out. CreateSnapshotBlob B f heap s_in r_in cs_in rh
     = Inr (\<lparr>data = Some (blob_image B (RawData (Compress B s_in)) (RawData (Compress B r_in))
                           (map (\<lambda>c. RawData (Compress B c)) cs_in) rh),
            raw_size = of_nat (length (blob_image B (RawData (Compress B s_in))
                           (RawData (Compress B r_in))
                           (map (\<lambda>c. RawData (Compress B c)) cs_in) rh))\<rparr>, out)"
proof -
  define s' where "s' = Compress B s_in"
  define r' where "r' = Compress B r_in"
  define cs' where "cs' = map (Compress B) cs_in"
  define nw where "nw = (of_nat (length cs') :: uint32)"
  define sow where "sow = StartupSnapshotOffset (arch B) nw"
  define tw where "tw = fold (\<lambda>context_snapshot t. t + of_nat (length (RawData context_snapshot)))
              cs' (sow + of_nat (length (RawData s')) + of_nat (length (RawData r')))"
  define n where "n = length cs_in"
  define pad where "pad = padding (arch B) n"
  define so where "so = 80 + 4 * n + pad"
  define s where "s = RawData s'"
  define r where "r = RawData r'"
  define cs where "cs = map (\<lambda>z. RawData (fst z)) (zip cs' cs_in)"
  define sz where "sz = sum_list (map (\<lambda>z. length (RawData (fst z))) (zip cs' cs_in))"
  define T where "T = so + length s + length r + sz"
  define G0 where "G0 = drop so (new_char_array heap T)"
  define V where "V = Version_GetString B"
  define Z where "Z = (\<lambda>k. replicate k (0::byte))"
  define ro where "ro = (of_nat (so + length s) :: uint32)"
  define offs where "offs = concat (map (\<lambda>x. WriteLittleEndianValue (of_nat x))
                              (context_offsets (so + length s + length r) cs))"
  have len_cs': "length cs' = n" by (simp add: cs'_def n_def)
  have cs_eq: "cs = map (\<lambda>c. RawData (Compress B c)) cs_in"
    unfolding cs_def cs'_def by (induction cs_in) simp_all
  have sz_eq: "sz = sum_list (map (\<lambda>c. length (RawData (Compress B c))) cs_in)"
    unfolding sz_def cs'_def by (induction cs_in) simp_all
  have sz_eq': "sz = sum_list (map (\<lambda>c. length (RawData c)) cs')"
    unfolding sz_eq cs'_def by (simp add: comp_def)
  have sz_cs: "sz = length (concat cs)"
    unfolding sz_eq cs_eq by (simp add: length_concat_sum comp_def)
  have pad4: "pad \<le> 4" unfolding pad_def by (rule padding_le)
  have T31: "T < 2 ^ 31" and n31: "88 + 4 * n < 2 ^ 31"
    using fits pad4
    by (simp_all add: fits_int32_def T_def so_def s_def r_def s'_def r'_def sz_eq n_def)
  have unat_nw: "unat nw = n"
    unfolding nw_def len_cs' using n31 by (intro unat_of_nat_small) simp
  have unat_sow: "unat sow = so"
    unfolding sow_def nw_def len_cs' so_def pad_def by (rule unat_StartupSnapshotOffset [OF n31])
  have sow_eq: "sow = of_nat so"
  proof -
    have "of_nat (unat sow) = sow" by simp
    then show ?thesis by (simp only: unat_sow)
  qed
  have tw_eq: "tw = of_nat T"
    unfolding tw_def fold_total_length sow_eq T_def sz_eq' s_def r_def by simp
  have unat_tw: "unat tw = T"
    unfolding tw_eq using T31 by (intro unat_of_nat_small) simp
  have len_G0: "length G0 = length s + length r + sz"
    by (simp add: G0_def new_char_array_def T_def)
  let ?b0 = "Z 4 @ Z 4 @ Z 4 @ Z 64 @ Z 4 @ Z (4 * n) @ Z pad @ G0"
  have b0: "AllocateBlob heap (arch B) nw tw = Inr ?b0"
  proof -
    have Zso: "Z so = Z 4 @ Z 4 @ Z 4 @ Z 64 @ Z 4 @ Z (4 * n) @ Z pad"
      unfolding Z_def so_def by (simp flip: replicate_add)
    have "so \<le> T" by (simp add: T_def)
    then have "memset (new_char_array heap T) 0 0 so = Inr (Z so @ G0)"
      by (simp add: memset_def write_bytes_def G0_def new_char_array_def Z_def)
    then show ?thesis
      unfolding AllocateBlob_def sow_def [symmetric] unat_sow unat_tw
      by (simp only: Zso append_assoc)
  qed
  define rhw where "rhw = (if rh then 1 else 0 :: uint32)"
  let ?n = "WriteLittleEndianValue nw"
  let ?rh = "WriteLittleEndianValue rhw"
  let ?ro = "WriteLittleEndianValue ro"
  let ?b1 = "?n @ Z 4 @ Z 4 @ Z 64 @ Z 4 @ Z (4 * n) @ Z pad @ G0"
  let ?b2 = "?n @ ?rh @ Z 4 @ Z 64 @ Z 4 @ Z (4 * n) @ Z pad @ G0"
  let ?b4 = "?n @ ?rh @ Z 4 @ V @ Z 4 @ Z (4 * n) @ Z pad @ G0"
  let ?b5 = "?n @ ?rh @ Z 4 @ V @ Z 4 @ Z (4 * n) @ Z pad @ s @ drop (length s) G0"
  let ?b6 = "?n @ ?rh @ Z 4 @ V @ ?ro @ Z (4 * n) @ Z pad @ s @ drop (length s) G0"
  let ?b7 = "?n @ ?rh @ Z 4 @ V @ ?ro @ Z (4 * n) @ Z pad @ s @ r @ drop (length s + length r) G0"
  let ?b8 = "?n @ ?rh @ Z 4 @ V @ ?ro @ offs @ Z pad @ s @ r @ concat cs"
  let ?tail = "V @ ?ro @ offs @ Z pad @ s @ r @ concat cs"
  have lenV: "length V = 64" by (simp add: V_def)
  have lenZ: "length (Z k) = k" for k by (simp add: Z_def)
  note kdefs = kFirstContextOffsetOffset_def kReadOnlyOffsetOffset_def
        kVersionStringOffset_def kVersionStringLength_def kChecksumOffset_def
        kRehashabilityOffset_def kNumberOfContextsOffset_def kUInt32Size_def
  have b1: "SetHeaderValue ?b0 kNumberOfContextsOffset nw = Inr ?b1"
    by (simp add: SetHeaderValue_def kdefs write_bytes_here lenZ)
  have b2: "SetHeaderValue ?b1 kRehashabilityOffset rhw = Inr ?b2"
    by (simp add: SetHeaderValue_def kdefs write_bytes_at lenZ)
  have b3: "memset ?b2 (unat kVersionStringOffset) 0 (unat kVersionStringLength) = Inr ?b2"
    using write_bytes_at [where A = "?n @ ?rh @ Z 4" and X = "Z 64" and Y = "Z 64" and off = 12]
    by (simp add: memset_def kdefs lenZ) (simp add: Z_def)
  have b4: "write_bytes ?b2 (unat kVersionStringOffset) V = Inr ?b4"
    using write_bytes_at [where A = "?n @ ?rh @ Z 4" and X = "Z 64" and Y = V and off = 12]
    by (simp add: kdefs lenZ lenV)
  have s32: "length s < 2 ^ 32" and r32: "length r < 2 ^ 32"
    using T31 by (simp_all add: T_def)
  have unat_s: "unat (of_nat (length (RawData s')) :: uint32) = length s"
    unfolding s_def [symmetric] using s32 by (rule unat_of_nat_small)
  have unat_r: "unat (of_nat (length (RawData r')) :: uint32) = length r"
    unfolding r_def [symmetric] using r32 by (rule unat_of_nat_small)
  have b5: "CopyBytes ?b4 (unat sow) (RawData s') (unat (of_nat (length (RawData s')) :: uint32))
            = Inr ?b5"
  proof -
    have "write_bytes ((?n @ ?rh @ Z 4 @ V @ Z 4 @ Z (4 * n) @ Z pad)
             @ take (length s) G0 @ drop (length s) G0) so s
          = Inr ((?n @ ?rh @ Z 4 @ V @ Z 4 @ Z (4 * n) @ Z pad) @ s @ drop (length s) G0)"
      by (rule write_bytes_at) (simp_all add: lenZ lenV so_def len_G0)
    then show ?thesis
      unfolding unat_sow unat_s by (simp add: CopyBytes_def s_def)
  qed
  have ro_eq: "sow + of_nat (length (RawData s')) = ro"
    by (simp add: ro_def sow_eq s_def)
  have unat_ro: "unat ro = so + length s"
    unfolding ro_def using T31 by (intro unat_of_nat_small) (simp add: T_def)
  have b6: "SetHeaderValue ?b5 kReadOnlyOffsetOffset ro = Inr ?b6"
    using write_bytes_at [where A = "?n @ ?rh @ Z 4 @ V" and X = "Z 4" and Y = ?ro and off = 76]
    by (simp add: SetHeaderValue_def kdefs lenZ lenV)
  have b7: "CopyBytes ?b6 (unat ro) (RawData r') (unat (of_nat (length (RawData r')) :: uint32))
            = Inr ?b7"
  proof -
    have split: "take (length r) (drop (length s) G0) @ drop (length s + length r) G0
                 = drop (length s) G0"
      by (metis append_take_drop_id drop_drop add.commute)
    have "write_bytes ((?n @ ?rh @ Z 4 @ V @ ?ro @ Z (4 * n) @ Z pad @ s)
             @ take (length r) (drop (length s) G0) @ drop (length s + length r) G0)
             (so + length s) r
          = Inr ((?n @ ?rh @ Z 4 @ V @ ?ro @ Z (4 * n) @ Z pad @ s) @ r
                   @ drop (length s + length r) G0)"
      by (rule write_bytes_at) (simp_all add: lenZ lenV so_def len_G0)
    then have "write_bytes ?b6 (so + length s) r = Inr ?b7"
      unfolding split by (simp only: append_assoc)
    then show ?thesis
      unfolding unat_ro unat_r by (simp add: CopyBytes_def r_def)
  qed
  have off_eq: "ro + of_nat (length (RawData r')) = of_nat (so + length s + length r)"
    by (simp add: ro_def r_def)
  have loop: "\<exists>out'. WriteContextSnapshots f (take (unat nw) (zip cs' cs_in)) 0 ?b7
                 (of_nat (so + length s + length r)) out = Inr (?b8, tw, out')" for out
  proof -
    let ?A = "?n @ ?rh @ Z 4 @ V @ ?ro"
    let ?zs = "zip cs' cs_in"
    let ?P = "Z pad @ s @ r"
    let ?G = "drop (length s + length r) G0"
    have lz: "length ?zs = n" by (simp add: len_cs' n_def)
    have main: "\<exists>out'. WriteContextSnapshots f ?zs (of_nat 0) (?A @ replicate (4 * length ?zs) 0 @ ?P @ ?G)
            (of_nat (so + length s + length r)) out
         = Inr (?A @ concat (map (\<lambda>x. WriteLittleEndianValue (of_nat x))
                      (context_offsets (so + length s + length r) (map (\<lambda>z. RawData (fst z)) ?zs)))
                  @ ?P @ concat (map (\<lambda>z. RawData (fst z)) ?zs),
                of_nat (so + length s + length r + length ?G), out')"
    proof (rule WriteContextSnapshots_layout)
      show "length ?A = 80 + 4 * 0" by (simp add: lenZ lenV)
      show "length ?A + 4 * length ?zs + length ?P = so + length s + length r"
        unfolding lz by (simp add: lenZ lenV so_def)
      show "length ?G = sum_list (map (\<lambda>z. length (RawData (fst z))) ?zs)"
        by (simp add: len_G0 sz_def)
      show "so + length s + length r + length ?G < 2 ^ 31"
        using T31 by (simp add: len_G0 T_def)
    qed
    have tk: "take (unat nw) ?zs = ?zs"
      unfolding unat_nw using lz by simp
    have tot: "so + length s + length r + length ?G = T"
      by (simp add: len_G0 T_def)
    have buf: "?A @ replicate (4 * length ?zs) 0 @ ?P @ ?G = ?b7"
      unfolding lz by (simp add: Z_def)
    have res: "?A @ concat (map (\<lambda>x. WriteLittleEndianValue (of_nat x))
                      (context_offsets (so + length s + length r) (map (\<lambda>z. RawData (fst z)) ?zs)))
                  @ ?P @ concat (map (\<lambda>z. RawData (fst z)) ?zs) = ?b8"
      by (simp add: offs_def cs_def)
    have z0: "(of_nat 0 :: uint32) = 0" by simp
    show ?thesis
      using main unfolding tk tot buf res z0 tw_eq .
  qed
  have len_b8: "length ?b8 = T"
    by (simp add: lenZ lenV offs_def cs_eq T_def so_def n_def sz_cs [unfolded cs_eq])
  have b8c: "VectorBytes \<lparr>data = Some ?b8, raw_size = tw\<rparr>
               (ChecksummedContent \<lparr>data = Some ?b8, raw_size = tw\<rparr>) = Inr ?tail"
  proof -
    have "12 \<le> T" by (simp add: T_def so_def)
    then have "unat (tw - 12) = T - 12"
      using unat_tw by (simp add: unat_sub word_le_nat_alt)
    moreover have "read_bytes ((?n @ ?rh @ Z 4) @ ?tail @ []) 12 (T - 12) = Inr ?tail"
      using len_b8 by (intro read_bytes_at) (simp_all add: lenZ)
    ultimately show ?thesis
      by (simp add: VectorBytes_def ChecksummedContent_def kdefs)
  qed
  have b9: "SetHeaderValue ?b8 kChecksumOffset chk
            = Inr (?n @ ?rh @ WriteLittleEndianValue chk @ ?tail)" for chk
    using write_bytes_at [where A = "?n @ ?rh" and X = "Z 4" and Y = "WriteLittleEndianValue chk"
        and off = 8]
    by (simp add: SetHeaderValue_def kdefs lenZ)
  have tail_eq: "blob_checksummed B (RawData s') (RawData r')
                   (map (\<lambda>c. RawData (Compress B c)) cs_in) = ?tail"
    by (simp add: blob_checksummed_def Let_def V_def ro_def offs_def so_def pad_def n_def
        s_def r_def cs_eq Z_def)
  have img: "blob_image B (RawData s') (RawData r') (map (\<lambda>c. RawData (Compress B c)) cs_in) rh
             = ?n @ ?rh @ WriteLittleEndianValue (Checksum B ?tail) @ ?tail"
    unfolding blob_image_def tail_eq by (simp add: nw_def len_cs' n_def rhw_def)
  have size_eq: "of_nat (length (?n @ ?rh @ WriteLittleEndianValue (Checksum B ?tail) @ ?tail)) = tw"
    using len_b8 by (simp add: tw_eq lenZ)
  show ?thesis
    unfolding CreateSnapshotBlob_def Let_def
    unfolding s'_def [symmetric] r'_def [symmetric] cs'_def [symmetric]
    unfolding nw_def [symmetric]
    unfolding sow_def [symmetric]
    unfolding tw_def [symmetric] rhw_def [symmetric] V_def [symmetric]
    apply (simp only: b0 and_then_Inr b1 b2 b3 b4 b5 ro_eq b6 b7 off_eq)
    apply (rule and_then_triple [OF loop])
    apply (simp only: prod.case b8c and_then_Inr b9 img size_eq)
    apply simp
    done
qed

lemma sint_of_nat_small: "n < 2 ^ 31 \<Longrightarrow> sint (of_nat n :: uint32) = int n"
  by (simp add: signed_of_nat signed_take_bit_int_eq_self)

lemma uint_of_nat_small: "n < 2 ^ 32 \<Longrightarrow> uint (of_nat n :: uint32) = int n"
  by (simp add: unsigned_of_nat take_bit_nat_eq_self)

lemma of_nat_less_small: "a < b \<Longrightarrow> b < 2 ^ 32 \<Longrightarrow> (of_nat a :: uint32) < of_nat b"
  by (simp add: word_less_nat_alt unat_of_nat_small)

lemma unat_of_nat_diff: "a \<le> b \<Longrightarrow> b < 2 ^ 32 \<Longrightarrow> unat (of_nat b - of_nat a :: uint32) = b - a"
proof -
  assume a: "a \<le> b" "b < 2 ^ 32"
  then have "(of_nat b - of_nat a :: uint32) = of_nat (b - a)" by simp
  moreover have "b - a < 2 ^ 32" using a by simp
  ultimately show ?thesis by (simp only: unat_of_nat_small)
qed

lemma GetHeaderValue_at:
  "data d = Some (X @ WriteLittleEndianValue v @ R) \<Longrightarrow> length X = unat off \<Longrightarrow>
   GetHeaderValue d off = Inr v"
  by (simp add: GetHeaderValue_def read_bytes_def)

lemma VectorBytes_at:
  "data d = Some (X @ Y @ R) \<Longrightarrow> length X = a \<Longrightarrow> length Y = l \<Longrightarrow>
   VectorBytes d \<lparr>vec_start = a, vec_length = l\<rparr> = Inr Y"
  by (simp add: VectorBytes_def read_bytes_def)

lemma length_context_offsets [simp]: "length (context_offsets off cs) = length cs"
  by (induction cs arbitrary: off) simp_all

lemma context_offsets_nth:
  "i < length cs \<Longrightarrow> context_offsets off cs ! i = off + length (concat (take i cs))"
proof (induction cs arbitrary: off i)
  case Nil
  then show ?case by simp
next
  case (Cons c cs)
  then show ?case by (cases i) simp_all
qed

lemma concat_split_nth:
  "i < length xs \<Longrightarrow> concat xs = concat (take i xs) @ xs ! i @ concat (drop (Suc i) xs)"
  by (metis append_take_drop_id concat.simps(2) concat_append Cons_nth_drop_Suc)

lemma length_concat_take_le:
  "length (concat (take i cs)) \<le> length (concat cs)"
  by (metis append_take_drop_id concat_append le_add1 length_append)

lemma length_concat_LE [simp]:
  "length (concat (map (\<lambda>x. WriteLittleEndianValue (of_nat x)) xs)) = 4 * length xs"
  by (induction xs) simp_all

lemma blob_image_extract:
  fixes B s r cs rh
  defines "n \<equiv> length cs"
    and "so \<equiv> 80 + 4 * length cs + padding (arch B) (length cs)"
    and "D \<equiv> blob_image B s r cs rh"
  defines "d \<equiv> \<lparr>data = Some D, raw_size = of_nat (length D)\<rparr>"
  assumes small: "length D < 2 ^ 31"
  shows "ExtractNumContexts d = Inr (of_nat n)"
    and "GetHeaderValue d kReadOnlyOffsetOffset = Inr (of_nat (so + length s))"
    and "i < n \<Longrightarrow> GetHeaderValue d (ContextSnapshotOffsetOffset (of_nat i))
           = Inr (of_nat (so + length s + length r + length (concat (take i cs))))"
    and "VectorBytes d \<lparr>vec_start = so, vec_length = length s\<rparr> = Inr s"
    and "VectorBytes d \<lparr>vec_start = so + length s, vec_length = length r\<rparr> = Inr r"
    and "i < n \<Longrightarrow> VectorBytes d \<lparr>vec_start = so + length s + length r + length (concat (take i cs)),
                                  vec_length = length (cs ! i)\<rparr> = Inr (cs ! i)"
proof -
  let ?LE = "\<lambda>x. WriteLittleEndianValue (of_nat x)"
  let ?offs = "context_offsets (so + length s + length r) cs"
  let ?pad = "replicate (padding (arch B) n) (0::byte)"
  let ?hd = "WriteLittleEndianValue (of_nat n) @ WriteLittleEndianValue (if rh then 1 else 0)
             @ WriteLittleEndianValue (Checksum B (blob_checksummed B s r cs))
             @ Version_GetString B"
  have D: "D = ?hd @ ?LE (so + length s) @ concat (map ?LE ?offs) @ ?pad @ s @ r @ concat cs"
    by (simp add: D_def blob_image_def blob_checksummed_def Let_def n_def so_def)
  have dd: "data d = Some D" and rs: "raw_size d = of_nat (length D)"
    by (simp_all add: d_def)
  have lenD: "length D = so + length s + length r + length (concat cs)"
    by (simp add: D n_def so_def)
  have pos: "0 < length D" by (simp add: lenD so_def)
  have kro: "unat kReadOnlyOffsetOffset = 76"
    by (simp add: kReadOnlyOffsetOffset_def kVersionStringOffset_def kVersionStringLength_def
        kChecksumOffset_def kRehashabilityOffset_def kNumberOfContextsOffset_def kUInt32Size_def)
  show "ExtractNumContexts d = Inr (of_nat n)"
  proof -
    have "GetHeaderValue d kNumberOfContextsOffset = Inr (of_nat n)"
      by (rule GetHeaderValue_at [where X = "[]"])
        (simp_all add: dd D kNumberOfContextsOffset_def)
    moreover have "CHECK_LT_uint32_int kNumberOfContextsOffset (raw_size d)"
      using pos small by (simp add: CHECK_LT_uint32_int_def rs sint_of_nat_small
          kNumberOfContextsOffset_def)
    ultimately show ?thesis by (simp add: ExtractNumContexts_def)
  qed
  show "GetHeaderValue d kReadOnlyOffsetOffset = Inr (of_nat (so + length s))"
    by (rule GetHeaderValue_at [where X = ?hd]) (simp_all add: dd D kro)
  show "VectorBytes d \<lparr>vec_start = so, vec_length = length s\<rparr> = Inr s"
    by (rule VectorBytes_at [where X = "?hd @ ?LE (so + length s) @ concat (map ?LE ?offs) @ ?pad"])
      (simp_all add: dd D so_def n_def)
  show "VectorBytes d \<lparr>vec_start = so + length s, vec_length = length r\<rparr> = Inr r"
    by (rule VectorBytes_at
        [where X = "?hd @ ?LE (so + length s) @ concat (map ?LE ?offs) @ ?pad @ s"])
      (simp_all add: dd D so_def n_def)
  {
    assume i: "i < n"
    have i31: "80 + 4 * i < 2 ^ 31"
      using small i by (simp add: lenD so_def n_def)
    have split: "concat (map ?LE ?offs)
          = concat (map ?LE (take i ?offs)) @ ?LE (?offs ! i) @ concat (map ?LE (drop (Suc i) ?offs))"
      using concat_split_nth [of i "map ?LE ?offs"] i
      by (simp add: n_def take_map drop_map)
    have oi: "?offs ! i = so + length s + length r + length (concat (take i cs))"
      using i by (simp add: context_offsets_nth n_def)
    show "GetHeaderValue d (ContextSnapshotOffsetOffset (of_nat i))
           = Inr (of_nat (so + length s + length r + length (concat (take i cs))))"
      unfolding oi [symmetric]
      by (rule GetHeaderValue_at
          [where X = "?hd @ ?LE (so + length s) @ concat (map ?LE (take i ?offs))"])
        (use i in \<open>simp_all add: dd D split unat_ContextSnapshotOffsetOffset [OF i31] n_def\<close>)
    have csplit: "concat cs = concat (take i cs) @ cs ! i @ concat (drop (Suc i) cs)"
      using i by (intro concat_split_nth) (simp add: n_def)
    have D2: "D = (?hd @ ?LE (so + length s) @ concat (map ?LE ?offs) @ ?pad @ s @ r
                    @ concat (take i cs)) @ cs ! i @ concat (drop (Suc i) cs)"
      unfolding D by (subst csplit) simp
    show "VectorBytes d \<lparr>vec_start = so + length s + length r + length (concat (take i cs)),
                                  vec_length = length (cs ! i)\<rparr> = Inr (cs ! i)"
      by (rule VectorBytes_at [OF dd [unfolded D2]]) (simp_all add: so_def n_def)
  }
qed

lemma ExtractData_of_nat:
  assumes "a < b" "b < T" "T < 2 ^ 31" "raw_size d = of_nat T"
  shows "ExtractData d (of_nat a) (of_nat b) = Inr \<lparr>vec_start = a, vec_length = b - a\<rparr>"
proof -
  have "(of_nat a :: uint32) < of_nat b"
    using assms by (intro of_nat_less_small) simp_all
  moreover have "CHECK_LT_uint32_int (of_nat b) (raw_size d)"
    using assms by (simp add: CHECK_LT_uint32_int_def sint_of_nat_small uint_of_nat_small)
  moreover have "unat (of_nat a :: uint32) = a"
    using assms by (intro unat_of_nat_small) simp
  moreover have "unat (of_nat b - of_nat a :: uint32) = b - a"
    using assms by (intro unat_of_nat_diff) simp_all
  ultimately show ?thesis
    by (simp add: ExtractData_def)
qed

lemma concat_take_Suc:
  "i < length cs \<Longrightarrow> length (concat (take (Suc i) cs)) = length (concat (take i cs)) + length (cs ! i)"
  by (simp add: take_Suc_conv_app_nth)

lemma concat_take_less:
  assumes "i < length cs" "last cs \<noteq> []"
  shows "length (concat (take i cs)) < length (concat cs)"
proof -
  have ne: "drop i cs \<noteq> []" using assms(1) by simp
  then have "last (drop i cs) = last cs" using assms(1) by simp
  then have "last cs \<in> set (drop i cs)" using ne by (metis last_in_set)
  then have "concat (drop i cs) \<noteq> []" using assms(2) by auto
  moreover have "concat cs = concat (take i cs) @ concat (drop i cs)"
    by (metis append_take_drop_id concat_append)
  ultimately show ?thesis by simp
qed

lemma blob_image_ExtractContextData:
  fixes B s r cs rh
  defines "n \<equiv> length cs"
    and "so \<equiv> 80 + 4 * length cs + padding (arch B) (length cs)"
    and "D \<equiv> blob_image B s r cs rh"
  defines "d \<equiv> \<lparr>data = Some D, raw_size = of_nat (length D)\<rparr>"
  assumes small: "length D < 2 ^ 31" and i: "i < n" and last: "last cs \<noteq> []"
  shows "ExtractContextData d (of_nat i)
         = Inr \<lparr>vec_start = so + length s + length r + length (concat (take i cs)),
                vec_length = length (cs ! i)\<rparr>"
proof -
  let ?T = "length D"
  let ?o = "\<lambda>j. so + length s + length r + length (concat (take j cs))"
  have lenD: "?T = so + length s + length r + length (concat cs)"
    by (simp add: D_def length_blob_image so_def)
  have rs: "raw_size d = of_nat ?T" by (simp add: d_def)
  have n31: "n < 2 ^ 31" using small by (simp add: lenD so_def n_def)
  have num: "ExtractNumContexts d = Inr (of_nat n)"
    unfolding d_def D_def n_def by (rule blob_image_extract(1)) (use small in \<open>simp add: D_def\<close>)
  have lt: "(of_nat i :: uint32) < of_nat n"
    using i n31 by (intro of_nat_less_small) simp_all
  have off: "ExtractContextOffset d (of_nat j) = Inr (of_nat (?o j))" if "j < n" for j
  proof -
    have "GetHeaderValue d (ContextSnapshotOffsetOffset (of_nat j)) = Inr (of_nat (?o j))"
      unfolding d_def D_def so_def
      by (rule blob_image_extract(3)) (use small that in \<open>simp_all add: D_def n_def\<close>)
    moreover have "?o j < ?T"
      using concat_take_less [of j cs] that last by (simp add: lenD n_def)
    then have "(of_nat (?o j) :: uint32) < raw_size d"
      unfolding rs using small by (intro of_nat_less_small) simp_all
    ultimately show ?thesis by (simp add: ExtractContextOffset_def)
  qed
  have last_iff: "(of_nat i :: uint32) = of_nat n - 1 \<longleftrightarrow> Suc i = n"
  proof -
    have "(of_nat n - 1 :: uint32) = of_nat (n - 1)" using i by simp
    moreover have "unat (of_nat i :: uint32) = i"
      using i n31 by (intro unat_of_nat_small) simp
    moreover have "unat (of_nat (n - 1) :: uint32) = n - 1"
      using n31 by (intro unat_of_nat_small) simp
    ultimately have "(of_nat i :: uint32) = of_nat n - 1 \<longleftrightarrow> i = n - 1"
      by (metis)
    then show ?thesis using i by auto
  qed
  have oi_lt: "?o i < ?T"
    using concat_take_less [of i cs] i last by (simp add: lenD n_def)
  have next_eq: "?o (Suc i) = ?o i + length (cs ! i)"
    using i by (simp add: concat_take_Suc n_def)
  show ?thesis
  proof (cases "Suc i = n")
    case True
    then have "?T = ?o i + length (cs ! i)"
      using next_eq by (simp add: lenD n_def)
    then have "unat (of_nat ?T - of_nat (?o i) :: uint32) = length (cs ! i)"
      using small unat_of_nat_diff [of "?o i" ?T] by simp
    moreover have "unat (of_nat (?o i) :: uint32) = ?o i"
      using oi_lt small by (intro unat_of_nat_small) simp
    ultimately show ?thesis
      using True by (simp add: ExtractContextData_def num lt off [OF i] last_iff rs)
  next
    case False
    then have si: "Suc i < n" using i by simp
    have lt': "?o (Suc i) < ?T"
      using concat_take_less [of "Suc i" cs] si last by (simp add: lenD n_def)
    have "uint (of_nat (?o (Suc i)) :: uint32) = int (?o (Suc i))"
      using lt' small by (intro uint_of_nat_small) simp
    moreover have "sint (of_nat ?T :: uint32) = int ?T"
      using small by (intro sint_of_nat_small)
    ultimately have "CHECK_LT_uint32_int (of_nat (?o (Suc i))) (raw_size d)"
      unfolding CHECK_LT_uint32_int_def rs using lt' by simp
    moreover have "ExtractContextOffset d (of_nat i + 1) = Inr (of_nat (?o (Suc i)))"
      using off [OF si] by (simp add: add.commute)
    moreover have "unat (of_nat (?o (Suc i)) - of_nat (?o i) :: uint32) = length (cs ! i)"
      using lt' small unat_of_nat_diff [of "?o i" "?o (Suc i)"] by (simp add: next_eq)
    moreover have "unat (of_nat (?o i) :: uint32) = ?o i"
      using oi_lt small by (intro unat_of_nat_small) simp
    ultimately show ?thesis
      using False by (simp add: ExtractContextData_def num lt off [OF i] last_iff)
  qed
qed

section \<open>\<^verbatim>\<open>HasContextSnapshot\<close>\<close>

lemma GetHeaderValue_Some:
  "data d = Some bs \<Longrightarrow> unat off + 4 \<le> length bs \<Longrightarrow>
   GetHeaderValue d off = Inr (ReadLittleEndianValue (take 4 (drop (unat off) bs)))"
  by (simp add: GetHeaderValue_def read_bytes_def)

text \<open>C7, as stated: \<^verbatim>\<open>HasContextSnapshot\<close> never triggers a fatal check for any attached
  blob. An attached blob with a non-null data pointer and \<^verbatim>\<open>raw_size\<close> 0 fails the
  \<^verbatim>\<open>CHECK_LT\<close> of \<^verbatim>\<open>ExtractNumContexts\<close>.\<close>

theorem HasContextSnapshot_fatal_on_empty_blob:
  "HasContextSnapshot \<lparr>snapshot_blob = Some empty_blob\<rparr> 0 = Inl CheckFailed"
  by (simp add: HasContextSnapshot_def ExtractNumContexts_def CHECK_LT_uint32_int_def
      kNumberOfContextsOffset_def empty_blob_def)

text \<open>C7, amended: \<^verbatim>\<open>HasContextSnapshot\<close> returns false when no blob is attached, when the
  blob's data pointer is null, and when the index is at least the stored context count. It
  triggers no fatal check for an attached blob whose \<^verbatim>\<open>raw_size\<close> is positive; for an
  attached blob with a non-null data pointer and a \<^verbatim>\<open>raw_size\<close> of 0 or less it is fatal.\<close>

theorem HasContextSnapshot_speculative:
  "(snapshot_blob isolate = None \<longrightarrow> HasContextSnapshot isolate index = Inr False)
   \<and> (\<forall>blob. snapshot_blob isolate = Some blob \<longrightarrow>
        (data blob = None \<longrightarrow> HasContextSnapshot isolate index = Inr False)
      \<and> (\<forall>n. ExtractNumContexts blob = Inr n \<and> unat n \<le> index \<longrightarrow>
             HasContextSnapshot isolate index = Inr False)
      \<and> (0 < sint (raw_size blob) \<longrightarrow> HasContextSnapshot isolate index \<noteq> Inl CheckFailed)
      \<and> (data blob \<noteq> None \<and> sint (raw_size blob) \<le> 0 \<longrightarrow>
             HasContextSnapshot isolate index = Inl CheckFailed))"
  by (auto simp: HasContextSnapshot_def ExtractNumContexts_def CHECK_LT_uint32_int_def
      kNumberOfContextsOffset_def GetHeaderValue_def read_bytes_def and_then_def
      split: option.splits sum.splits if_splits)

theorem HasContextSnapshot_speculative_witness:
  "snapshot_blob \<lparr>snapshot_blob = Some header_only_blob\<rparr> = Some header_only_blob
   \<and> ExtractNumContexts header_only_blob = Inr 2 \<and> unat (2 :: uint32) \<le> 5
   \<and> 0 < sint (raw_size header_only_blob)
   \<and> HasContextSnapshot \<lparr>snapshot_blob = Some header_only_blob\<rparr> 5 = Inr False
   \<and> HasContextSnapshot \<lparr>snapshot_blob = Some header_only_blob\<rparr> 5 \<noteq> Inl CheckFailed"
proof -
  have n: "ExtractNumContexts header_only_blob = Inr 2"
    by (simp add: ExtractNumContexts_def CHECK_LT_uint32_int_def kNumberOfContextsOffset_def
        header_only_blob_def GetHeaderValue_def read_bytes_def ReadLittleEndianValue_def)
  have p: "0 < sint (raw_size header_only_blob)"
    by (simp add: header_only_blob_def)
  show ?thesis
    using n p HasContextSnapshot_speculative [of "\<lparr>snapshot_blob = Some header_only_blob\<rparr>" 5]
    by simp
qed

section \<open>Extraction of a segment\<close>

lemmas layout_consts =
  kFirstContextOffsetOffset_def kReadOnlyOffsetOffset_def kVersionStringOffset_def
  kVersionStringLength_def kChecksumOffset_def kRehashabilityOffset_def
  kNumberOfContextsOffset_def kUInt32Size_def kInt32Size_def

lemmas example_defs =
  example_build_def no_compression_def segment_def example_startup_def example_read_only_def
  example_contexts_def

text \<open>C10: extraction of a zero-length segment is fatal. \<^verbatim>\<open>ExtractData\<close> returns a view only
  when the start offset is below the end offset and the end offset below \<^verbatim>\<open>raw_size\<close>; with
  equal offsets it fails its \<^verbatim>\<open>CHECK_LT\<close>, and so do \<^verbatim>\<open>ExtractStartupData\<close> when the stored
  read-only offset equals the startup offset and \<^verbatim>\<open>ExtractReadOnlyData\<close> when the offset of
  context 0 equals the read-only offset.\<close>

theorem zero_length_segment_is_fatal:
  "(ExtractData d start_offset end_offset = Inr v \<longrightarrow>
      start_offset < end_offset \<and> uint end_offset < sint (raw_size d))
   \<and> ExtractData d start_offset start_offset = Inl CheckFailed
   \<and> (ExtractNumContexts d = Inr n
        \<and> GetHeaderValue d kReadOnlyOffsetOffset = Inr (StartupSnapshotOffset p n) \<longrightarrow>
      ExtractStartupData p d = Inl CheckFailed)
   \<and> (GetHeaderValue d kReadOnlyOffsetOffset = Inr read_only_offset
        \<and> GetHeaderValue d (ContextSnapshotOffsetOffset 0) = Inr read_only_offset \<longrightarrow>
      ExtractReadOnlyData d = Inl CheckFailed)"
  by (auto simp: ExtractData_def ExtractStartupData_def ExtractReadOnlyData_def
      CHECK_LT_uint32_int_def split: if_splits)

theorem zero_length_segment_is_fatal_witness:
  "ExtractData example_blob 88 90 = Inr \<lparr>vec_start = 88, vec_length = 2\<rparr>
   \<and> (88 :: uint32) < 90 \<and> uint (90 :: uint32) < sint (raw_size example_blob)
   \<and> ExtractData example_blob 88 88 = Inl CheckFailed
   \<and> ExtractNumContexts empty_startup_blob = Inr 1
   \<and> GetHeaderValue empty_startup_blob kReadOnlyOffsetOffset = Inr (StartupSnapshotOffset Arch64 1)
   \<and> GetHeaderValue empty_startup_blob kReadOnlyOffsetOffset = Inr 88
   \<and> GetHeaderValue empty_startup_blob (ContextSnapshotOffsetOffset 0) = Inr 88
   \<and> ExtractStartupData Arch64 empty_startup_blob = Inl CheckFailed
   \<and> ExtractReadOnlyData empty_startup_blob = Inl CheckFailed"
proof -
  have v: "ExtractData example_blob 88 90 = Inr \<lparr>vec_start = 88, vec_length = 2\<rparr>"
    by (simp add: ExtractData_def CHECK_LT_uint32_int_def example_blob_def)
  have n: "ExtractNumContexts empty_startup_blob = Inr 1"
    by code_simp
  have so: "StartupSnapshotOffset Arch64 1 = 88"
    by code_simp
  have ro: "GetHeaderValue empty_startup_blob kReadOnlyOffsetOffset = Inr 88"
    by code_simp
  have c0: "GetHeaderValue empty_startup_blob (ContextSnapshotOffsetOffset 0) = Inr 88"
    by code_simp
  show ?thesis
    using v n ro c0
      zero_length_segment_is_fatal
        [of example_blob 88 90 "\<lparr>vec_start = 88, vec_length = 2\<rparr>" 2 Arch64 90]
      zero_length_segment_is_fatal
        [of empty_startup_blob 88 88 "\<lparr>vec_start = 88, vec_length = 0\<rparr>" 1 Arch64 88]
    by (simp add: so)
qed

text \<open>C5, at a failing input: in \<open>corrupt_blob\<close> the offset of context 1 (96) is below the
  offset of context 0 (100), both below \<^verbatim>\<open>raw_size\<close> (104). \<^verbatim>\<open>ExtractContextData\<close> passes every
  check and returns a view of \<open>2^32 - 4\<close> bytes that leaves the blob.\<close>

theorem ExtractContextData_unordered_offsets:
  "ExtractContextData corrupt_blob 0 = Inr \<lparr>vec_start = 100, vec_length = 4294967292\<rparr>
   \<and> VectorBytes corrupt_blob \<lparr>vec_start = 100, vec_length = 4294967292\<rparr> = Inl OutOfBounds"
  by (simp add: ExtractContextData_def ExtractNumContexts_def ExtractContextOffset_def
      GetHeaderValue_def read_bytes_def corrupt_blob_def CHECK_LT_uint32_int_def
      ContextSnapshotOffsetOffset_def layout_consts ReadLittleEndianValue_def VectorBytes_def)

text \<open>C6: \<^verbatim>\<open>ExtractContextData\<close> is fatal for an index that is not below the context count.
  In a blob whose offsets are in order and below \<^verbatim>\<open>raw_size\<close>, the view of the last context
  begins at its offset and ends at \<^verbatim>\<open>raw_size\<close>, and the view of any other context begins at
  its offset and ends at the offset of the next context.\<close>

theorem ExtractContextData_bounds:
  "(ExtractNumContexts d = Inr num_contexts \<and> \<not> index < num_contexts \<longrightarrow>
      ExtractContextData d index = Inl CheckFailed)
   \<and> (ExtractNumContexts d = Inr num_contexts \<and> index < num_contexts
        \<and> index = num_contexts - 1
        \<and> GetHeaderValue d (ContextSnapshotOffsetOffset index) = Inr context_offset
        \<and> context_offset < raw_size d \<longrightarrow>
      ExtractContextData d index
        = Inr \<lparr>vec_start = unat context_offset,
               vec_length = unat (raw_size d) - unat context_offset\<rparr>)
   \<and> (ExtractNumContexts d = Inr num_contexts \<and> index < num_contexts
        \<and> index \<noteq> num_contexts - 1
        \<and> GetHeaderValue d (ContextSnapshotOffsetOffset index) = Inr context_offset
        \<and> GetHeaderValue d (ContextSnapshotOffsetOffset (index + 1)) = Inr next_context_offset
        \<and> context_offset \<le> next_context_offset
        \<and> uint next_context_offset < sint (raw_size d) \<longrightarrow>
      ExtractContextData d index
        = Inr \<lparr>vec_start = unat context_offset,
               vec_length = unat next_context_offset - unat context_offset\<rparr>)"
proof (intro conjI impI)
  assume "ExtractNumContexts d = Inr num_contexts \<and> \<not> index < num_contexts"
  then show "ExtractContextData d index = Inl CheckFailed"
    by (simp add: ExtractContextData_def)
next
  assume a: "ExtractNumContexts d = Inr num_contexts \<and> index < num_contexts
        \<and> index = num_contexts - 1
        \<and> GetHeaderValue d (ContextSnapshotOffsetOffset index) = Inr context_offset
        \<and> context_offset < raw_size d"
  then have n: "ExtractNumContexts d = Inr num_contexts" and i: "index < num_contexts"
    and l: "num_contexts - 1 = index"
    and g: "GetHeaderValue d (ContextSnapshotOffsetOffset index) = Inr context_offset"
    and c: "context_offset < raw_size d"
    by blast+
  from c have "context_offset \<le> raw_size d"
    by (rule less_imp_le)
  then have "unat (raw_size d - context_offset) = unat (raw_size d) - unat context_offset"
    by (rule unat_sub)
  then show "ExtractContextData d index
        = Inr \<lparr>vec_start = unat context_offset,
               vec_length = unat (raw_size d) - unat context_offset\<rparr>"
    by (simp add: ExtractContextData_def ExtractContextOffset_def n i l g c)
next
  assume a: "ExtractNumContexts d = Inr num_contexts \<and> index < num_contexts
        \<and> index \<noteq> num_contexts - 1
        \<and> GetHeaderValue d (ContextSnapshotOffsetOffset index) = Inr context_offset
        \<and> GetHeaderValue d (ContextSnapshotOffsetOffset (index + 1)) = Inr next_context_offset
        \<and> context_offset \<le> next_context_offset
        \<and> uint next_context_offset < sint (raw_size d)"
  then have n: "ExtractNumContexts d = Inr num_contexts" and i: "index < num_contexts"
    and l: "index \<noteq> num_contexts - 1"
    and g: "GetHeaderValue d (ContextSnapshotOffsetOffset index) = Inr context_offset"
    and g': "GetHeaderValue d (ContextSnapshotOffsetOffset (index + 1)) = Inr next_context_offset"
    and le: "context_offset \<le> next_context_offset"
    and c: "uint next_context_offset < sint (raw_size d)"
    by blast+
  have pos: "0 \<le> sint (raw_size d)"
    using c uint_ge_0 [of next_context_offset] by linarith
  then have "sint (raw_size d) = uint (raw_size d)"
    using sint_lt [of "raw_size d"] by (simp add: uint_sint take_bit_int_eq_self)
  with c have lt: "next_context_offset < raw_size d"
    by (simp add: word_less_def)
  with le have lt0: "context_offset < raw_size d"
    by (rule le_less_trans)
  have "unat (next_context_offset - context_offset)
        = unat next_context_offset - unat context_offset"
    using le by (rule unat_sub)
  then show "ExtractContextData d index
        = Inr \<lparr>vec_start = unat context_offset,
               vec_length = unat next_context_offset - unat context_offset\<rparr>"
    by (simp add: ExtractContextData_def ExtractContextOffset_def CHECK_LT_uint32_int_def
        n i l g g' c lt lt0)
qed

theorem ExtractContextData_bounds_witness:
  "ExtractNumContexts example_blob = Inr 2
   \<and> GetHeaderValue example_blob (ContextSnapshotOffsetOffset 0) = Inr 93
   \<and> GetHeaderValue example_blob (ContextSnapshotOffsetOffset 1) = Inr 98
   \<and> ExtractContextData example_blob 0 = Inr \<lparr>vec_start = 93, vec_length = 5\<rparr>
   \<and> ExtractContextData example_blob 1 = Inr \<lparr>vec_start = 98, vec_length = 3\<rparr>
   \<and> ExtractContextData example_blob 2 = Inl CheckFailed"
proof -
  have n: "ExtractNumContexts example_blob = Inr 2"
    by code_simp
  have c0: "GetHeaderValue example_blob (ContextSnapshotOffsetOffset 0) = Inr 93"
    by code_simp
  have c1: "GetHeaderValue example_blob (ContextSnapshotOffsetOffset 1) = Inr 98"
    by code_simp
  have r: "raw_size example_blob = 101"
    by (simp add: example_blob_def)
  show ?thesis
    using n c0 c1
      ExtractContextData_bounds [where d = example_blob and num_contexts = 2 and index = 0
        and context_offset = 93 and next_context_offset = 98]
      ExtractContextData_bounds [where d = example_blob and num_contexts = 2 and index = 1
        and context_offset = 98]
      ExtractContextData_bounds [where d = example_blob and num_contexts = 2 and index = 2]
    by (simp add: r)
qed

section \<open>The version check\<close>

lemma strncmp_c_str:
  "n \<le> length a \<Longrightarrow> n \<le> length b \<Longrightarrow>
   \<exists>r. strncmp a b n = Inr r \<and> (r = 0 \<longleftrightarrow> c_str (take n a) = c_str (take n b))"
proof (induction n arbitrary: a b)
  case 0
  then show ?case by simp
next
  case (Suc n)
  then obtain x a' y b' where ab: "a = x # a'" "b = y # b'"
    by (cases a; cases b) auto
  show ?case
  proof (cases "x = y")
    case False
    then have "uint x - uint y \<noteq> 0" by (simp add: word_uint_eq_iff)
    with False show ?thesis
      unfolding ab by (auto simp: c_str_def)
  next
    case True
    show ?thesis
    proof (cases "x = 0")
      case z: True
      with True show ?thesis unfolding ab by (simp add: c_str_def)
    next
      case nz: False
      from Suc.IH [of a' b'] Suc.prems obtain r where
        "strncmp a' b' n = Inr r" "r = 0 \<longleftrightarrow> c_str (take n a') = c_str (take n b')"
        unfolding ab by auto
      with True nz show ?thesis unfolding ab by (simp add: c_str_def)
    qed
  qed
qed

lemma printf_precision_s_c_str:
  "n \<le> length s \<Longrightarrow> printf_precision_s n s = Inr (c_str (take n s))"
proof (induction n arbitrary: s)
  case 0
  then show ?case by (simp add: c_str_def)
next
  case (Suc n)
  then obtain x s' where "s = x # s'" by (cases s) auto
  with Suc show ?case by (simp add: c_str_def)
qed

text \<open>C2, as stated: any difference in the 64 bytes of the version field is a mismatch. The
  field of \<open>stale_version_blob\<close> differs from the version buffer of \<open>example_build\<close> in
  its fifth byte, behind the terminating zero, and \<^verbatim>\<open>CheckVersion\<close> returns.\<close>

theorem CheckVersion_passes_stale_version:
  "take 64 (drop 12 (the (data stale_version_blob))) \<noteq> Version_GetString example_build
   \<and> CheckVersion example_build stale_version_blob = Inr ()"
  by code_simp

text \<open>C2, amended: \<^verbatim>\<open>CheckVersion\<close> is fatal for every blob whose \<^verbatim>\<open>raw_size\<close>, read as an unsigned
  32-bit value, is not above 76 (a negative \<^verbatim>\<open>int\<close> passes this check). For a blob that passes
  it and holds the 64-byte version field in its buffer, the version buffer of the build and
  the field are compared as C strings (\<^verbatim>\<open>strncmp\<close> over at most 64 bytes): when the bytes
  before the first zero agree it returns, so identical fields pass and bytes behind the first
  zero are not compared. When they differ it is fatal: for a \<^verbatim>\<open>raw_size\<close> that is positive as an
  \<^verbatim>\<open>int\<close>, with the message that holds both strings, \<^verbatim>\<open>raw_size\<close> and the context count; for any
  other \<^verbatim>\<open>raw_size\<close>, in the \<^verbatim>\<open>CHECK_LT\<close> of the \<^verbatim>\<open>ExtractNumContexts\<close> call among the arguments of
  the message.\<close>

theorem CheckVersion_compares_c_strings:
  "(\<not> 76 < unat (raw_size d) \<longrightarrow> CheckVersion B d = Inl CheckFailed)
   \<and> (76 < unat (raw_size d) \<and> data d = Some bs \<and> 76 \<le> length bs \<longrightarrow>
        CheckVersion B d =
          (if c_str (Version_GetString B) = c_str (take 64 (drop 12 bs)) then Inr ()
           else if 0 < sint (raw_size d)
           then Inl (VersionMismatch (c_str (Version_GetString B))
                       (c_str (take 64 (drop 12 bs)))
                       (sint (raw_size d)) (sint (ReadLittleEndianValue (take 4 bs))))
           else Inl CheckFailed))"
proof (intro conjI impI)
  assume "\<not> 76 < unat (raw_size d)"
  then show "CheckVersion B d = Inl CheckFailed"
    by (simp add: CheckVersion_def word_less_nat_alt layout_consts)
next
  assume a: "76 < unat (raw_size d) \<and> data d = Some bs \<and> 76 \<le> length bs"
  then have big: "76 < unat (raw_size d)" and dd: "data d = Some bs" and len: "76 \<le> length bs"
    by blast+
  let ?v = "Version_GetString B"
  let ?f = "drop 12 bs"
  have lv: "64 \<le> length ?v" and lf: "64 \<le> length ?f"
    using len by simp_all
  from strncmp_c_str [OF lv lf] obtain r where
    r: "strncmp ?v ?f 64 = Inr r" "r = 0 \<longleftrightarrow> c_str (take 64 ?v) = c_str (take 64 ?f)"
    by blast
  have pv: "printf_precision_s 64 ?v = Inr (c_str ?v)"
    using printf_precision_s_c_str [OF lv] by simp
  have pf: "printf_precision_s 64 ?f = Inr (c_str (take 64 ?f))"
    by (rule printf_precision_s_c_str [OF lf])
  have n: "ExtractNumContexts d =
           (if 0 < sint (raw_size d) then Inr (ReadLittleEndianValue (take 4 bs))
            else Inl CheckFailed)"
    using dd len
    by (simp add: ExtractNumContexts_def CHECK_LT_uint32_int_def GetHeaderValue_Some
        kNumberOfContextsOffset_def)
  show "CheckVersion B d =
          (if c_str (Version_GetString B) = c_str (take 64 (drop 12 bs)) then Inr ()
           else if 0 < sint (raw_size d)
           then Inl (VersionMismatch (c_str (Version_GetString B))
                       (c_str (take 64 (drop 12 bs)))
                       (sint (raw_size d)) (sint (ReadLittleEndianValue (take 4 bs))))
           else Inl CheckFailed)"
    using big r pv pf n dd
    by (simp add: CheckVersion_def word_less_nat_alt layout_consts)
qed

theorem CheckVersion_compares_c_strings_witness:
  "\<not> 76 < unat (raw_size header_only_blob)
   \<and> CheckVersion example_build header_only_blob = Inl CheckFailed
   \<and> 76 < unat (raw_size other_version_blob)
   \<and> data other_version_blob = Some other_version_bytes \<and> 76 \<le> length other_version_bytes
   \<and> CheckVersion example_build other_version_blob
       = Inl (VersionMismatch [0x38, 0x2E, 0x31] [0x39, 0x2E, 0x30] 88 1)
   \<and> 76 < unat (raw_size example_blob) \<and> data example_blob = Some example_bytes
   \<and> 76 \<le> length example_bytes
   \<and> CheckVersion example_build example_blob = Inr ()
   \<and> 76 < unat (0xFFFFFFFF :: int32) \<and> sint (0xFFFFFFFF :: int32) = - 1
   \<and> CheckVersion example_build \<lparr>data = Some example_bytes, raw_size = 0xFFFFFFFF\<rparr> = Inr ()
   \<and> CheckVersion example_build \<lparr>data = Some other_version_bytes, raw_size = 0xFFFFFFFF\<rparr>
       = Inl CheckFailed"
proof -
  have d: "data other_version_blob = Some other_version_bytes"
    and d': "data example_blob = Some example_bytes"
    by (simp_all add: other_version_blob_def example_blob_def)
  have l: "76 \<le> length other_version_bytes" and l': "76 \<le> length example_bytes"
    by (simp_all add: other_version_bytes_def example_bytes_def)
  have v: "c_str (Version_GetString example_build) = [0x38, 0x2E, 0x31]"
    by code_simp
  have f: "c_str (take 64 (drop 12 other_version_bytes)) = [0x39, 0x2E, 0x30]"
    by code_simp
  have f': "c_str (take 64 (drop 12 example_bytes)) = [0x38, 0x2E, 0x31]"
    by code_simp
  have n: "ReadLittleEndianValue (take 4 other_version_bytes) = 1"
    by code_simp
  have r: "sint (raw_size other_version_blob) = 88" "unat (raw_size other_version_blob) = 88"
    "unat (raw_size example_blob) = 101" "unat (raw_size header_only_blob) = 4"
    by (simp_all add: other_version_blob_def example_blob_def header_only_blob_def)
  have m: "unat (0xFFFFFFFF :: int32) = 4294967295" "sint (0xFFFFFFFF :: int32) = - 1"
    by simp_all
  show ?thesis
    using CheckVersion_compares_c_strings
        [where d = header_only_blob and B = example_build and bs = "[2, 0, 0, 0]"]
      CheckVersion_compares_c_strings
        [where d = other_version_blob and B = example_build and bs = other_version_bytes]
      CheckVersion_compares_c_strings
        [where d = example_blob and B = example_build and bs = example_bytes]
      CheckVersion_compares_c_strings
        [where d = "\<lparr>data = Some example_bytes, raw_size = 0xFFFFFFFF\<rparr>" and B = example_build
          and bs = example_bytes]
      CheckVersion_compares_c_strings
        [where d = "\<lparr>data = Some other_version_bytes, raw_size = 0xFFFFFFFF\<rparr>"
          and B = example_build and bs = other_version_bytes]
      d d' l l'
    by (simp add: v f f' n r m)
qed

section \<open>Assembling a blob: the diagnostic output\<close>

lemma and_then_map_cong:
  "(\<And>x. map_sum id h (f x) = map_sum id h (g x)) \<Longrightarrow>
   map_sum id h (and_then m f) = map_sum id h (and_then m g)"
  by (cases m) simp_all

lemma WriteContextSnapshots_profile:
  "(\<exists>e. WriteContextSnapshots f zs i buf off out = Inl e
        \<and> WriteContextSnapshots f' zs i buf off out' = Inl e)
   \<or> (\<exists>b po l l'. WriteContextSnapshots f zs i buf off out = Inr (b, po, l)
        \<and> WriteContextSnapshots f' zs i buf off out' = Inr (b, po, l'))"
proof (induction zs arbitrary: i buf off out out')
  case Nil
  then show ?case by simp
next
  case (Cons z zs)
  obtain c cin where z: "z = (c, cin)" by (cases z)
  show ?case
  proof (cases "SetHeaderValue buf (ContextSnapshotOffsetOffset i) off")
    case (Inl e)
    then show ?thesis by (simp add: z)
  next
    case s: (Inr b1)
    show ?thesis
    proof (cases "CopyBytes b1 (unat off) (RawData c)
                    (unat (of_nat (length (RawData c)) :: uint32))")
      case (Inl e)
      then show ?thesis using s by (simp add: z Let_def)
    next
      case c: (Inr b2)
      show ?thesis
        unfolding z
        by (simp only: WriteContextSnapshots.simps s c sum.case Let_def) (rule Cons.IH)
    qed
  qed
qed

text \<open>C8: the bytes and the length that \<^verbatim>\<open>CreateSnapshotBlob\<close> produces (or the failure it ends
  in) are the same with \<^verbatim>\<open>FLAG_profile_deserialization\<close> on and off; only the printed lines
  differ.\<close>

theorem CreateSnapshotBlob_profile_independent:
  "map_sum id fst (CreateSnapshotBlob B True heap startup_in read_only_in contexts_in rehash)
   = map_sum id fst (CreateSnapshotBlob B False heap startup_in read_only_in contexts_in rehash)"
  unfolding CreateSnapshotBlob_def Let_def
proof (intro and_then_map_cong, goal_cases)
  case (1 buf0 buf1 buf2 buf3 buf4 buf5 buf6 buf7)
  show ?case (is "map_sum id fst (and_then ?W1 ?F) = map_sum id fst (and_then ?W2 ?F)")
  proof -
    consider (bad) e where "?W1 = Inl e" "?W2 = Inl e"
      | (good) b po l l' where "?W1 = Inr (b, po, l)" "?W2 = Inr (b, po, l')"
      using WriteContextSnapshots_profile by blast
    then show ?thesis
    proof cases
      case bad
      then show ?thesis by simp
    next
      case good
      have "map_sum id fst (?F (b, po, l)) = map_sum id fst (?F (b, po, l'))"
        unfolding prod.case by (intro and_then_map_cong) simp
      then show ?thesis
        by (simp only: good and_then_Inr)
    qed
  qed
qed

theorem CreateSnapshotBlob_profile_independent_witness:
  "CreateSnapshotBlob example_build False example_heap example_startup example_read_only
     example_contexts True = Inr (example_blob, [])
   \<and> map_sum id fst
        (CreateSnapshotBlob example_build True example_heap example_startup example_read_only
           example_contexts True) = Inr example_blob"
proof -
  have "CreateSnapshotBlob example_build False example_heap example_startup example_read_only
     example_contexts True = Inr (example_blob, [])"
    by code_simp
  then show ?thesis
    using CreateSnapshotBlob_profile_independent [of example_build example_heap example_startup
        example_read_only example_contexts True]
    by simp
qed

section \<open>Round trip\<close>

lemma StartupSnapshotOffset_of_nat:
  assumes "88 + 4 * n < 2 ^ 31"
  shows "StartupSnapshotOffset p (of_nat n) = of_nat (80 + 4 * n + padding p n)"
proof -
  have "of_nat (unat (StartupSnapshotOffset p (of_nat n))) = StartupSnapshotOffset p (of_nat n)"
    by simp
  then show ?thesis
    by (simp only: unat_StartupSnapshotOffset [OF assms])
qed

lemma fits_int32_length:
  assumes "fits_int32 B s_in r_in cs_in"
  shows "length (blob_image B (RawData (Compress B s_in)) (RawData (Compress B r_in))
            (map (\<lambda>c. RawData (Compress B c)) cs_in) rh) < 2 ^ 31"
    and "88 + 4 * length cs_in < 2 ^ 31"
  using assms padding_le [of "arch B" "length cs_in"]
  by (simp_all add: fits_int32_def length_blob_image length_concat_sum comp_def)

text \<open>C1, as stated: the round trip holds for every sequence of segments with zero or more
  contexts. Without a context, \<^verbatim>\<open>ExtractReadOnlyData\<close> takes the first four bytes of the startup
  data for the offset of context 0 and fails its \<^verbatim>\<open>CHECK_LT\<close>. With two contexts, an empty
  startup segment, an empty read-only segment and an empty last context each end the
  extraction of that segment in a failed \<^verbatim>\<open>CHECK_LT\<close>.\<close>

theorem roundtrip_fails_without_contexts:
  "CreateSnapshotBlob example_build False example_heap example_startup example_read_only [] True
     = Inr (blob_without_contexts, [])
   \<and> ExtractReadOnlyData blob_without_contexts = Inl CheckFailed
   \<and> \<not> isl (CreateSnapshotBlob example_build False example_heap (segment []) example_read_only
              example_contexts True)
   \<and> ExtractStartupData Arch64
        (fst (projr (CreateSnapshotBlob example_build False example_heap (segment [])
                       example_read_only example_contexts True))) = Inl CheckFailed
   \<and> \<not> isl (CreateSnapshotBlob example_build False example_heap example_startup (segment [])
              example_contexts True)
   \<and> ExtractReadOnlyData
        (fst (projr (CreateSnapshotBlob example_build False example_heap example_startup
                       (segment []) example_contexts True))) = Inl CheckFailed
   \<and> \<not> isl (CreateSnapshotBlob example_build False example_heap example_startup
              example_read_only [segment [0x43, 0x30], segment []] True)
   \<and> ExtractContextData
        (fst (projr (CreateSnapshotBlob example_build False example_heap example_startup
                       example_read_only [segment [0x43, 0x30], segment []] True))) 1
       = Inl CheckFailed"
  by code_simp

text \<open>C1, amended: for segments that fit (\<open>fits_int32\<close>: 88 bytes of header and padding, 4
  bytes per context and the bytes of the segments together stay below \<open>2^31\<close>), with a non-empty
  startup segment, a non-empty read-only segment, at least one context and a non-empty last
  context, and for every rehash flag, \<^verbatim>\<open>CreateSnapshotBlob\<close> returns a blob from which
  \<^verbatim>\<open>ExtractStartupData\<close>, \<^verbatim>\<open>ExtractReadOnlyData\<close> and \<^verbatim>\<open>ExtractContextData(i)\<close> for every context
  \<open>i\<close> give views whose bytes are the (possibly compressed) input segments.\<close>

theorem CreateSnapshotBlob_roundtrip:
  assumes fits: "fits_int32 B startup_in read_only_in contexts_in"
    and s_ne: "RawData (Compress B startup_in) \<noteq> []"
    and r_ne: "RawData (Compress B read_only_in) \<noteq> []"
    and cs_ne: "contexts_in \<noteq> []"
    and last_ne: "RawData (Compress B (last contexts_in)) \<noteq> []"
  shows "\<exists>blob out.
      CreateSnapshotBlob B profile heap startup_in read_only_in contexts_in rehash = Inr (blob, out)
      \<and> and_then (ExtractStartupData (arch B) blob) (VectorBytes blob)
          = Inr (RawData (Compress B startup_in))
      \<and> and_then (ExtractReadOnlyData blob) (VectorBytes blob)
          = Inr (RawData (Compress B read_only_in))
      \<and> (\<forall>i < length contexts_in.
            and_then (ExtractContextData blob (of_nat i)) (VectorBytes blob)
            = Inr (RawData (Compress B (contexts_in ! i))))"
proof -
  define s where "s = RawData (Compress B startup_in)"
  define r where "r = RawData (Compress B read_only_in)"
  define cs where "cs = map (\<lambda>c. RawData (Compress B c)) contexts_in"
  define n where "n = length cs"
  define so where "so = 80 + 4 * length cs + padding (arch B) (length cs)"
  define D where "D = blob_image B s r cs rehash"
  define d where "d = \<lparr>data = Some D, raw_size = of_nat (length D)\<rparr>"
  have small: "length (blob_image B s r cs rehash) < 2 ^ 31" and n31: "88 + 4 * length cs < 2 ^ 31"
    using fits_int32_length(1) [OF fits, of rehash] fits_int32_length(2) [OF fits]
    by (simp_all add: s_def r_def cs_def)
  obtain out where create:
    "CreateSnapshotBlob B profile heap startup_in read_only_in contexts_in rehash = Inr (d, out)"
    using CreateSnapshotBlob_layout [OF fits, of profile heap rehash]
    unfolding d_def D_def s_def r_def cs_def by blast
  have lenD: "length D = so + length s + length r + length (concat cs)"
    by (simp add: D_def length_blob_image so_def)
  have rs: "raw_size d = of_nat (length D)" by (simp add: d_def)
  have small': "length D < 2 ^ 31" using small by (simp add: D_def)
  have s_ne': "s \<noteq> []" using s_ne by (simp add: s_def)
  have r_ne': "r \<noteq> []" using r_ne by (simp add: r_def)
  have cs_ne': "cs \<noteq> []" using cs_ne by (simp add: cs_def)
  have last': "last cs \<noteq> []"
    using cs_ne last_ne by (simp add: cs_def last_map)
  have cc: "0 < length (concat cs)"
    using concat_take_less [of 0 cs] cs_ne' last' by simp
  have num: "ExtractNumContexts d = Inr (of_nat n)"
    unfolding d_def D_def n_def by (rule blob_image_extract(1) [OF small])
  have ro: "GetHeaderValue d kReadOnlyOffsetOffset = Inr (of_nat (so + length s))"
    unfolding d_def D_def so_def by (rule blob_image_extract(2) [OF small])
  have c0: "GetHeaderValue d (ContextSnapshotOffsetOffset 0)
            = Inr (of_nat (so + length s + length r))"
    using blob_image_extract(3) [OF small, of 0] cs_ne'
    by (simp add: d_def D_def so_def)
  have sso: "StartupSnapshotOffset (arch B) (of_nat n) = of_nat so"
    unfolding n_def so_def by (rule StartupSnapshotOffset_of_nat [OF n31])
  have e1: "ExtractStartupData (arch B) d = Inr \<lparr>vec_start = so, vec_length = length s\<rparr>"
  proof -
    have "ExtractData d (of_nat so) (of_nat (so + length s))
          = Inr \<lparr>vec_start = so, vec_length = so + length s - so\<rparr>"
      using s_ne' r_ne' small'
      by (intro ExtractData_of_nat [where T = "length D"]) (simp_all add: lenD rs)
    then show ?thesis
      by (simp add: ExtractStartupData_def num ro sso)
  qed
  have v1: "VectorBytes d \<lparr>vec_start = so, vec_length = length s\<rparr> = Inr s"
    unfolding d_def D_def so_def by (rule blob_image_extract(4) [OF small])
  have e2: "ExtractReadOnlyData d
            = Inr \<lparr>vec_start = so + length s, vec_length = length r\<rparr>"
  proof -
    have "ExtractData d (of_nat (so + length s)) (of_nat (so + length s + length r))
          = Inr \<lparr>vec_start = so + length s, vec_length = so + length s + length r - (so + length s)\<rparr>"
      using r_ne' cc small'
      by (intro ExtractData_of_nat [where T = "length D"]) (simp_all add: lenD rs)
    then show ?thesis
      by (simp add: ExtractReadOnlyData_def ro c0)
  qed
  have v2: "VectorBytes d \<lparr>vec_start = so + length s, vec_length = length r\<rparr> = Inr r"
    unfolding d_def D_def so_def by (rule blob_image_extract(5) [OF small])
  have e3: "and_then (ExtractContextData d (of_nat i)) (VectorBytes d)
            = Inr (RawData (Compress B (contexts_in ! i)))" if "i < length contexts_in" for i
  proof -
    have i: "i < length cs" using that by (simp add: cs_def)
    have "ExtractContextData d (of_nat i)
          = Inr \<lparr>vec_start = so + length s + length r + length (concat (take i cs)),
                 vec_length = length (cs ! i)\<rparr>"
      unfolding d_def D_def so_def
      by (rule blob_image_ExtractContextData [OF small i last'])
    moreover have "VectorBytes d \<lparr>vec_start = so + length s + length r + length (concat (take i cs)),
                 vec_length = length (cs ! i)\<rparr> = Inr (cs ! i)"
      unfolding d_def D_def so_def by (rule blob_image_extract(6) [OF small i])
    moreover have "cs ! i = RawData (Compress B (contexts_in ! i))"
      using that by (simp add: cs_def)
    ultimately show ?thesis by simp
  qed
  show ?thesis
    using create e1 v1 e2 v2 e3 by (simp add: s_def r_def)
qed

theorem CreateSnapshotBlob_roundtrip_witness:
  "fits_int32 example_build example_startup example_read_only example_contexts
   \<and> RawData (Compress example_build example_startup) \<noteq> []
   \<and> RawData (Compress example_build example_read_only) \<noteq> []
   \<and> example_contexts \<noteq> []
   \<and> RawData (Compress example_build (last example_contexts)) \<noteq> []
   \<and> (\<exists>blob out.
        CreateSnapshotBlob example_build True example_heap example_startup example_read_only
          example_contexts True = Inr (blob, out)
        \<and> and_then (ExtractStartupData Arch64 blob) (VectorBytes blob) = Inr [0x53, 0x31]
        \<and> and_then (ExtractReadOnlyData blob) (VectorBytes blob) = Inr [0x52, 0x4F, 0x31]
        \<and> and_then (ExtractContextData blob 0) (VectorBytes blob)
            = Inr [0x43, 0x30, 0x41, 0x41, 0x41]
        \<and> and_then (ExtractContextData blob 1) (VectorBytes blob) = Inr [0x43, 0x31, 0x42])"
proof -
  have h1: "fits_int32 example_build example_startup example_read_only example_contexts"
    by (simp add: fits_int32_def example_defs)
  have h2: "RawData (Compress example_build example_startup) \<noteq> []"
    by (simp add: example_defs)
  have h3: "RawData (Compress example_build example_read_only) \<noteq> []"
    by (simp add: example_defs)
  have h4: "example_contexts \<noteq> []"
    by (simp add: example_defs)
  have h5: "RawData (Compress example_build (last example_contexts)) \<noteq> []"
    by (simp add: example_defs)
  from CreateSnapshotBlob_roundtrip [OF h1 h2 h3 h4 h5, of True example_heap True]
  obtain blob out where
    c: "CreateSnapshotBlob example_build True example_heap example_startup example_read_only
          example_contexts True = Inr (blob, out)"
    and s: "and_then (ExtractStartupData (arch example_build) blob) (VectorBytes blob)
            = Inr (RawData (Compress example_build example_startup))"
    and r: "and_then (ExtractReadOnlyData blob) (VectorBytes blob)
            = Inr (RawData (Compress example_build example_read_only))"
    and i: "\<forall>i < length example_contexts.
              and_then (ExtractContextData blob (of_nat i)) (VectorBytes blob)
              = Inr (RawData (Compress example_build (example_contexts ! i)))"
    by blast
  have i0: "and_then (ExtractContextData blob 0) (VectorBytes blob)
            = Inr [0x43, 0x30, 0x41, 0x41, 0x41]"
    using i [rule_format, of 0] by (simp add: example_defs)
  have i1: "and_then (ExtractContextData blob 1) (VectorBytes blob) = Inr [0x43, 0x31, 0x42]"
    using i [rule_format, of 1] by (simp add: example_defs)
  have s': "and_then (ExtractStartupData Arch64 blob) (VectorBytes blob) = Inr [0x53, 0x31]"
    using s by (simp add: example_defs)
  have r': "and_then (ExtractReadOnlyData blob) (VectorBytes blob) = Inr [0x52, 0x4F, 0x31]"
    using r by (simp add: example_defs)
  show ?thesis
    using h1 h2 h3 h4 h5 c s' r' i0 i1 by blast
qed

section \<open>The checksummed region\<close>

lemma VerifyChecksum_drop8:
  "VerifyChecksum B \<lparr>data = Some bs, raw_size = z\<rparr>
   = (if 4 \<le> length (drop 8 bs)
      then (if 4 + unat (z - 12) \<le> length (drop 8 bs)
            then Inr (Checksum B (take (unat (z - 12)) (drop 4 (drop 8 bs)))
                      = ReadLittleEndianValue (take 4 (drop 8 bs)))
            else Inl OutOfBounds)
      else Inl OutOfBounds)"
  by (auto simp: VerifyChecksum_def GetHeaderValue_def VectorBytes_def ChecksummedContent_def
      read_bytes_def layout_consts)

lemma checksummed_region:
  assumes "data d = Some bs" "12 \<le> length bs" "length bs < 2 ^ 31"
    "raw_size d = of_nat (length bs)"
  shows "ChecksummedContent d = \<lparr>vec_start = 12, vec_length = length bs - 12\<rparr>"
    and "VectorBytes d (ChecksummedContent d) = Inr (drop 12 bs)"
    and "VerifyChecksum B d
         = Inr (Checksum B (drop 12 bs) = ReadLittleEndianValue (take 4 (drop 8 bs)))"
proof -
  have "unat (of_nat (length bs) - of_nat 12 :: uint32) = length bs - 12"
    using assms by (intro unat_of_nat_diff) simp_all
  then have u: "unat (raw_size d - 12) = length bs - 12"
    using assms(4) by simp
  show c: "ChecksummedContent d = \<lparr>vec_start = 12, vec_length = length bs - 12\<rparr>"
    by (simp add: ChecksummedContent_def layout_consts u)
  show v: "VectorBytes d (ChecksummedContent d) = Inr (drop 12 bs)"
    using assms(1,2) by (simp add: c VectorBytes_def read_bytes_def)
  have "GetHeaderValue d kChecksumOffset = Inr (ReadLittleEndianValue (take 4 (drop 8 bs)))"
    using assms(1,2) by (simp add: GetHeaderValue_Some layout_consts)
  then show "VerifyChecksum B d
         = Inr (Checksum B (drop 12 bs) = ReadLittleEndianValue (take 4 (drop 8 bs)))"
    by (simp add: VerifyChecksum_def v)
qed

text \<open>C3: in a blob of at least 12 bytes the checksummed region is the bytes from offset 12
  to the end, and \<^verbatim>\<open>VerifyChecksum\<close> compares the checksum of exactly these bytes with the
  field at offset 8; \<^verbatim>\<open>CreateSnapshotBlob\<close> stores the checksum of exactly these bytes of the
  blob it returns, which therefore verifies; and two blobs of the same \<^verbatim>\<open>raw_size\<close> that agree
  from offset 8 on, whatever their first 8 bytes are, get the same result from
  \<^verbatim>\<open>VerifyChecksum\<close>.\<close>

theorem checksum_covers_version_to_end:
  "(data d = Some bs \<and> 12 \<le> length bs \<and> length bs < 2 ^ 31
      \<and> raw_size d = of_nat (length bs) \<longrightarrow>
      ChecksummedContent d = \<lparr>vec_start = 12, vec_length = length bs - 12\<rparr>
      \<and> VectorBytes d (ChecksummedContent d) = Inr (drop 12 bs)
      \<and> VerifyChecksum B d
          = Inr (Checksum B (drop 12 bs) = ReadLittleEndianValue (take 4 (drop 8 bs))))
   \<and> (fits_int32 B startup_in read_only_in contexts_in \<longrightarrow>
      (\<exists>blob out cs.
          CreateSnapshotBlob B profile heap startup_in read_only_in contexts_in rehash
            = Inr (blob, out)
          \<and> data blob = Some cs \<and> raw_size blob = of_nat (length cs)
          \<and> ReadLittleEndianValue (take 4 (drop 8 cs)) = Checksum B (drop 12 cs)
          \<and> VerifyChecksum B blob = Inr True))
   \<and> (drop 8 bs_a = drop 8 bs_b \<longrightarrow>
      VerifyChecksum B \<lparr>data = Some bs_a, raw_size = z\<rparr>
      = VerifyChecksum B \<lparr>data = Some bs_b, raw_size = z\<rparr>)"
proof (intro conjI impI)
  assume a: "data d = Some bs \<and> 12 \<le> length bs \<and> length bs < 2 ^ 31
      \<and> raw_size d = of_nat (length bs)"
  then have a1: "data d = Some bs" and a2: "12 \<le> length bs" and a3: "length bs < 2 ^ 31"
    and a4: "raw_size d = of_nat (length bs)"
    by blast+
  show "ChecksummedContent d = \<lparr>vec_start = 12, vec_length = length bs - 12\<rparr>"
    by (rule checksummed_region(1) [OF a1 a2 a3 a4])
  show "VectorBytes d (ChecksummedContent d) = Inr (drop 12 bs)"
    by (rule checksummed_region(2) [OF a1 a2 a3 a4])
  show "VerifyChecksum B d
          = Inr (Checksum B (drop 12 bs) = ReadLittleEndianValue (take 4 (drop 8 bs)))"
    by (rule checksummed_region(3) [OF a1 a2 a3 a4])
next
  assume fits: "fits_int32 B startup_in read_only_in contexts_in"
  define s where "s = RawData (Compress B startup_in)"
  define r where "r = RawData (Compress B read_only_in)"
  define cs where "cs = map (\<lambda>c. RawData (Compress B c)) contexts_in"
  define D where "D = blob_image B s r cs rehash"
  define d where "d = \<lparr>data = Some D, raw_size = of_nat (length D)\<rparr>"
  have small: "length D < 2 ^ 31"
    using fits_int32_length(1) [OF fits, of rehash] by (simp add: D_def s_def r_def cs_def)
  obtain out where create:
    "CreateSnapshotBlob B profile heap startup_in read_only_in contexts_in rehash = Inr (d, out)"
    using CreateSnapshotBlob_layout [OF fits, of profile heap rehash]
    unfolding d_def D_def s_def r_def cs_def by blast
  have d1: "data d = Some D" and d2: "raw_size d = of_nat (length D)"
    by (simp_all add: d_def)
  have l12: "12 \<le> length D" by (simp add: D_def length_blob_image)
  have tail: "drop 12 D = blob_checksummed B s r cs"
    by (simp add: D_def blob_image_def)
  have field: "take 4 (drop 8 D)
               = WriteLittleEndianValue (Checksum B (blob_checksummed B s r cs))"
    by (simp add: D_def blob_image_def)
  have rd: "ReadLittleEndianValue (take 4 (drop 8 D)) = Checksum B (drop 12 D)"
    by (simp add: field tail)
  have "VerifyChecksum B d = Inr True"
    using checksummed_region(3) [OF d1 l12 small d2, of B] by (simp add: rd)
  with create d1 d2 rd show "\<exists>blob out cs.
          CreateSnapshotBlob B profile heap startup_in read_only_in contexts_in rehash
            = Inr (blob, out)
          \<and> data blob = Some cs \<and> raw_size blob = of_nat (length cs)
          \<and> ReadLittleEndianValue (take 4 (drop 8 cs)) = Checksum B (drop 12 cs)
          \<and> VerifyChecksum B blob = Inr True"
    by blast
next
  assume "drop 8 bs_a = drop 8 bs_b"
  then show "VerifyChecksum B \<lparr>data = Some bs_a, raw_size = z\<rparr>
      = VerifyChecksum B \<lparr>data = Some bs_b, raw_size = z\<rparr>"
    by (simp only: VerifyChecksum_drop8)
qed

theorem checksum_covers_version_to_end_witness:
  "data example_blob = Some example_bytes \<and> 12 \<le> length example_bytes
   \<and> length example_bytes < 2 ^ 31 \<and> raw_size example_blob = of_nat (length example_bytes)
   \<and> ChecksummedContent example_blob = \<lparr>vec_start = 12, vec_length = 89\<rparr>
   \<and> VectorBytes example_blob (ChecksummedContent example_blob) = Inr (drop 12 example_bytes)
   \<and> VerifyChecksum example_build example_blob = Inr True
   \<and> fits_int32 example_build example_startup example_read_only example_contexts
   \<and> (\<exists>blob out.
        CreateSnapshotBlob example_build False example_heap example_startup example_read_only
          example_contexts True = Inr (blob, out)
        \<and> VerifyChecksum example_build blob = Inr True)
   \<and> drop 8 tampered_bytes = drop 8 example_bytes
   \<and> VerifyChecksum example_build \<lparr>data = Some tampered_bytes, raw_size = 101\<rparr>
       = VerifyChecksum example_build \<lparr>data = Some example_bytes, raw_size = 101\<rparr>"
proof -
  have a1: "data example_blob = Some example_bytes"
    by (simp add: example_blob_def)
  have len: "length example_bytes = 101"
    by (simp add: example_bytes_def)
  have a4: "raw_size example_blob = of_nat (length example_bytes)"
    by (simp add: example_blob_def len)
  have sum: "Checksum example_build (drop 12 example_bytes)
             = ReadLittleEndianValue (take 4 (drop 8 example_bytes))"
    by code_simp
  have h: "fits_int32 example_build example_startup example_read_only example_contexts"
    by (simp add: fits_int32_def example_defs)
  have d8: "drop 8 tampered_bytes = drop 8 example_bytes"
    by (simp add: tampered_bytes_def)
  note inst = checksum_covers_version_to_end
    [where d = example_blob and bs = example_bytes and B = example_build
      and startup_in = example_startup and read_only_in = example_read_only
      and contexts_in = example_contexts and profile = False and heap = example_heap
      and rehash = True and bs_a = tampered_bytes and bs_b = example_bytes and z = 101]
  have A: "ChecksummedContent example_blob = \<lparr>vec_start = 12, vec_length = 89\<rparr>
      \<and> VectorBytes example_blob (ChecksummedContent example_blob) = Inr (drop 12 example_bytes)
      \<and> VerifyChecksum example_build example_blob = Inr True"
    using inst a1 a4 by (auto simp: len sum)
  have B: "\<exists>blob out.
        CreateSnapshotBlob example_build False example_heap example_startup example_read_only
          example_contexts True = Inr (blob, out)
        \<and> VerifyChecksum example_build blob = Inr True"
    using inst h by blast
  have C: "VerifyChecksum example_build \<lparr>data = Some tampered_bytes, raw_size = 101\<rparr>
       = VerifyChecksum example_build \<lparr>data = Some example_bytes, raw_size = 101\<rparr>"
    using inst d8 by blast
  show ?thesis
    using a1 a4 h d8 A B C by (auto simp: len)
qed

section \<open>The recorded offsets\<close>

lemma GetHeaderValues_map:
  "(\<And>x. x \<in> set xs \<Longrightarrow> GetHeaderValue d (f x) = Inr (g x)) \<Longrightarrow>
   GetHeaderValues d (map f xs) = Inr (map g xs)"
proof (induction xs)
  case Nil
  then show ?case by simp
next
  case (Cons a xs)
  have "GetHeaderValue d (f a) = Inr (g a)" by (rule Cons.prems) simp
  moreover have "GetHeaderValues d (map f xs) = Inr (map g xs)"
    by (rule Cons.IH) (rule Cons.prems, simp)
  ultimately show ?case by simp
qed

lemma length_concat_take_mono:
  "i \<le> j \<Longrightarrow> length (concat (take i cs)) \<le> length (concat (take j cs))"
proof -
  assume "i \<le> j"
  then have "take i cs = take i (take j cs)" by (simp add: min_absorb1)
  then show ?thesis
    using length_concat_take_le [of i "take j cs"] by simp
qed

lemma length_concat_take_strict:
  assumes "i < j" "j \<le> length cs" "\<forall>c \<in> set cs. c \<noteq> []"
  shows "length (concat (take i cs)) < length (concat (take j cs))"
proof -
  have lj: "length (take j cs) = j" using assms(2) by simp
  have tt: "take i (take j cs) = take i cs" using assms(1) by (simp add: min_absorb1)
  have il: "i < length (take j cs)" using assms(1) lj by simp
  have ne: "take j cs \<noteq> []"
  proof
    assume "take j cs = []"
    then have "length (take j cs) = length ([] :: 'a list list)" by (rule arg_cong)
    with lj assms(1) show False by simp
  qed
  then have "last (take j cs) \<in> set (take j cs)"
    by (rule last_in_set)
  then have "last (take j cs) \<in> set cs"
    by (rule in_set_takeD)
  then have "last (take j cs) \<noteq> []" using assms(3) by blast
  with il have "length (concat (take i (take j cs))) < length (concat (take j cs))"
    by (rule concat_take_less)
  then show ?thesis by (simp only: tt)
qed

text \<open>C4, as stated: the recorded offsets of every produced blob are strictly increasing.
  With an empty startup segment the stored read-only offset equals the startup offset.\<close>

theorem recorded_offsets_equal_for_empty_startup:
  "\<not> isl (CreateSnapshotBlob example_build False example_heap (segment []) example_read_only
            example_contexts True)
   \<and> recorded_offsets Arch64
        (fst (projr (CreateSnapshotBlob example_build False example_heap (segment [])
                       example_read_only example_contexts True)))
       = Inr [88, 88, 91, 96, 99]
   \<and> \<not> sorted_wrt (<) [88, 88, 91, 96, 99 :: nat]"
  by code_simp

text \<open>C4, amended: for every blob that \<^verbatim>\<open>CreateSnapshotBlob\<close> produces from segments that fit
  (\<open>fits_int32\<close>) the recorded offsets are non-decreasing and end in the total length:
  startup offset \<open>\<le>\<close> read-only offset \<open>\<le>\<close> offset of context 0 \<open>\<le>\<close> ... \<open>\<le>\<close> total length. They are strictly
  increasing when no segment is empty.\<close>

theorem recorded_offsets_sorted:
  assumes fits: "fits_int32 B startup_in read_only_in contexts_in"
  shows "\<exists>blob out offs.
      CreateSnapshotBlob B profile heap startup_in read_only_in contexts_in rehash = Inr (blob, out)
      \<and> recorded_offsets (arch B) blob = Inr offs
      \<and> length offs = length contexts_in + 3
      \<and> sorted offs
      \<and> last offs = unat (raw_size blob)
      \<and> (RawData (Compress B startup_in) \<noteq> [] \<and> RawData (Compress B read_only_in) \<noteq> []
           \<and> (\<forall>c \<in> set contexts_in. RawData (Compress B c) \<noteq> []) \<longrightarrow>
         sorted_wrt (<) offs)"
proof -
  define s where "s = RawData (Compress B startup_in)"
  define r where "r = RawData (Compress B read_only_in)"
  define cs where "cs = map (\<lambda>c. RawData (Compress B c)) contexts_in"
  define n where "n = length cs"
  define so where "so = 80 + 4 * length cs + padding (arch B) (length cs)"
  define D where "D = blob_image B s r cs rehash"
  define d where "d = \<lparr>data = Some D, raw_size = of_nat (length D)\<rparr>"
  define oc where "oc = (\<lambda>i. so + length s + length r + length (concat (take i cs)))"
  define offs where "offs = so # (so + length s) # map oc [0..<Suc n]"
  have small: "length (blob_image B s r cs rehash) < 2 ^ 31" and n31: "88 + 4 * length cs < 2 ^ 31"
    using fits_int32_length(1) [OF fits, of rehash] fits_int32_length(2) [OF fits]
    by (simp_all add: s_def r_def cs_def)
  have small': "length D < 2 ^ 31" using small by (simp add: D_def)
  obtain out where create:
    "CreateSnapshotBlob B profile heap startup_in read_only_in contexts_in rehash = Inr (d, out)"
    using CreateSnapshotBlob_layout [OF fits, of profile heap rehash]
    unfolding d_def D_def s_def r_def cs_def by blast
  have lenD: "length D = oc n"
    by (simp add: D_def length_blob_image so_def oc_def n_def)
  have oc_le: "oc i \<le> length D" for i
    unfolding lenD oc_def n_def using length_concat_take_le [of i cs] by simp
  have u_oc: "unat (of_nat (oc i) :: uint32) = oc i" for i
    using oc_le [of i] small' by (intro unat_of_nat_small) simp
  have num: "ExtractNumContexts d = Inr (of_nat n)"
    unfolding d_def D_def n_def by (rule blob_image_extract(1) [OF small])
  have un: "unat (of_nat n :: uint32) = n"
    using n31 by (intro unat_of_nat_small) (simp add: n_def)
  define rw where "rw = (of_nat (so + length s) :: uint32)"
  have ro: "GetHeaderValue d kReadOnlyOffsetOffset = Inr rw"
    unfolding d_def D_def so_def rw_def by (rule blob_image_extract(2) [OF small])
  have u_ro: "unat rw = so + length s"
    unfolding rw_def using oc_le [of 0] small' by (intro unat_of_nat_small) (simp add: oc_def)
  have ctx: "GetHeaderValues d (map (\<lambda>i. ContextSnapshotOffsetOffset (of_nat i)) [0..<n])
             = Inr (map (\<lambda>i. of_nat (oc i)) [0..<n])"
  proof (rule GetHeaderValues_map)
    fix i assume "i \<in> set [0..<n]"
    then have "i < length cs" by (simp add: n_def)
    then show "GetHeaderValue d (ContextSnapshotOffsetOffset (of_nat i)) = Inr (of_nat (oc i))"
      unfolding d_def D_def so_def oc_def by (rule blob_image_extract(3) [OF small])
  qed
  have sso: "unat (StartupSnapshotOffset (arch B) (of_nat n)) = so"
    unfolding n_def so_def by (rule unat_StartupSnapshotOffset [OF n31])
  have us: "unat (of_nat (length D) :: uint32) = length D"
    using small' by (intro unat_of_nat_small) simp
  have "map unat (map (\<lambda>i. of_nat (oc i) :: uint32) [0..<n]) = map oc [0..<n]"
    by (simp add: u_oc)
  moreover have rs: "unat (raw_size d) = oc n"
    by (simp add: d_def us) (simp add: lenD)
  ultimately have rec: "recorded_offsets (arch B) d = Inr offs"
    by (simp add: recorded_offsets_def num un ro ctx sso u_ro offs_def)
  have len: "length offs = length contexts_in + 3"
    by (simp add: offs_def n_def cs_def)
  have lst: "last offs = unat (raw_size d)"
    by (simp add: offs_def rs)
  have mono: "sorted (map oc [0..<Suc n])"
    unfolding sorted_wrt_map
  proof (rule sorted_wrt_mono_rel [OF _ sorted_wrt_upt])
    fix i j :: nat
    assume "i \<in> set [0..<Suc n]" "j \<in> set [0..<Suc n]" "i < j"
    then show "oc i \<le> oc j"
      unfolding oc_def using length_concat_take_mono [of i j cs] by simp
  qed
  have srt: "sorted offs"
    using mono by (auto simp: offs_def oc_def simp del: upt_Suc)
  have strict: "sorted_wrt (<) offs"
    if "s \<noteq> []" "r \<noteq> []" "\<forall>c \<in> set cs. c \<noteq> []"
  proof -
    have "sorted_wrt (<) (map oc [0..<Suc n])"
      unfolding sorted_wrt_map
    proof (rule sorted_wrt_mono_rel [OF _ sorted_wrt_upt])
      fix i j :: nat
      assume "i \<in> set [0..<Suc n]" "j \<in> set [0..<Suc n]" "i < j"
      then have "i < j" "j \<le> length cs" by (auto simp: n_def)
      then show "oc i < oc j"
        unfolding oc_def using length_concat_take_strict [OF _ _ that(3), of i j] by simp
    qed
    then show ?thesis
      using that(1,2) by (auto simp: offs_def oc_def simp del: upt_Suc)
  qed
  have "RawData (Compress B startup_in) \<noteq> [] \<and> RawData (Compress B read_only_in) \<noteq> []
           \<and> (\<forall>c \<in> set contexts_in. RawData (Compress B c) \<noteq> []) \<longrightarrow>
         sorted_wrt (<) offs"
    using strict by (simp add: s_def r_def cs_def)
  with create rec len srt lst show ?thesis
    by blast
qed

theorem recorded_offsets_sorted_witness:
  "fits_int32 example_build example_startup example_read_only example_contexts
   \<and> (\<exists>blob out offs.
        CreateSnapshotBlob example_build False example_heap example_startup example_read_only
          example_contexts True = Inr (blob, out)
        \<and> recorded_offsets Arch64 blob = Inr offs
        \<and> length offs = 5 \<and> sorted offs \<and> last offs = unat (raw_size blob)
        \<and> sorted_wrt (<) offs)"
proof -
  have h: "fits_int32 example_build example_startup example_read_only example_contexts"
    by (simp add: fits_int32_def example_defs)
  have ne: "RawData (Compress example_build example_startup) \<noteq> []
            \<and> RawData (Compress example_build example_read_only) \<noteq> []
            \<and> (\<forall>c \<in> set example_contexts. RawData (Compress example_build c) \<noteq> [])"
    by (simp add: example_defs)
  have l: "length example_contexts + 3 = 5" and a: "arch example_build = Arch64"
    by (simp_all add: example_defs)
  from recorded_offsets_sorted [OF h, of False example_heap True] ne
  obtain blob out offs where
    "CreateSnapshotBlob example_build False example_heap example_startup example_read_only
          example_contexts True = Inr (blob, out)"
    "recorded_offsets (arch example_build) blob = Inr offs"
    "length offs = length example_contexts + 3" "sorted offs" "last offs = unat (raw_size blob)"
    "sorted_wrt (<) offs"
    by blast
  then show ?thesis
    using h unfolding l a by blast
qed

section \<open>Uninitialised memory\<close>

lemma AllocateBlob_eq:
  assumes "unat (StartupSnapshotOffset p n) \<le> unat total_length"
  shows "AllocateBlob heap p n total_length
         = Inr (replicate (unat (StartupSnapshotOffset p n)) 0
                @ map heap [unat (StartupSnapshotOffset p n)..<unat total_length])"
  using assms
  by (simp add: AllocateBlob_def memset_def write_bytes_def new_char_array_def drop_map)

text \<open>C9, as stated: \<^verbatim>\<open>CreateSnapshotBlob\<close> allocates a zero-initialised buffer of
  \<^verbatim>\<open>total_length\<close> bytes. For the two contexts and 101 bytes of \<open>example_blob\<close>, the buffer
  after the allocation and the \<^verbatim>\<open>memset\<close> holds zeros in its first 88 bytes and the allocator's
  bytes in the other 13.\<close>

theorem AllocateBlob_leaves_payload_uninitialized:
  "AllocateBlob example_heap Arch64 2 101 = Inr (replicate 88 0 @ replicate 13 0xAA)
   \<and> replicate 88 0 @ replicate 13 0xAA \<noteq> replicate 101 (0 :: byte)"
  by code_simp

text \<open>C9, amended, for segments that fit (\<open>fits_int32\<close>): \<^verbatim>\<open>CreateSnapshotBlob\<close> allocates
  \<^verbatim>\<open>total_length\<close> bytes and zeroes only the bytes before the startup offset; the bytes behind
  it keep what the allocator left until the segments are copied over them. In the blob it returns, every padding byte between the
  end of the context offsets and the startup offset is zero, and the blob is the same
  whatever the allocated memory held: nothing uninitialised reaches the output.\<close>

theorem CreateSnapshotBlob_no_uninitialized_bytes:
  assumes fits: "fits_int32 B startup_in read_only_in contexts_in"
  shows "\<exists>blob out bs.
      CreateSnapshotBlob B profile heap startup_in read_only_in contexts_in rehash = Inr (blob, out)
      \<and> data blob = Some bs
      \<and> AllocateBlob heap (arch B) (of_nat (length contexts_in)) (raw_size blob)
          = Inr (replicate (unat (StartupSnapshotOffset (arch B) (of_nat (length contexts_in)))) 0
                 @ map heap [unat (StartupSnapshotOffset (arch B) (of_nat (length contexts_in)))
                             ..<length bs])
      \<and> (\<forall>heap'. map_sum id fst
             (CreateSnapshotBlob B profile heap' startup_in read_only_in contexts_in rehash)
           = Inr blob)
      \<and> (\<forall>k. 80 + 4 * length contexts_in \<le> k
             \<and> k < unat (StartupSnapshotOffset (arch B) (of_nat (length contexts_in))) \<longrightarrow>
           bs ! k = 0)"
proof -
  define s where "s = RawData (Compress B startup_in)"
  define r where "r = RawData (Compress B read_only_in)"
  define cs where "cs = map (\<lambda>c. RawData (Compress B c)) contexts_in"
  define n where "n = length contexts_in"
  define pad where "pad = padding (arch B) n"
  define so where "so = 80 + 4 * n + pad"
  define D where "D = blob_image B s r cs rehash"
  define d where "d = \<lparr>data = Some D, raw_size = of_nat (length D)\<rparr>"
  have small: "length D < 2 ^ 31" and n31: "88 + 4 * n < 2 ^ 31"
    using fits_int32_length(1) [OF fits, of rehash] fits_int32_length(2) [OF fits]
    by (simp_all add: D_def s_def r_def cs_def n_def)
  have create: "\<exists>out. CreateSnapshotBlob B profile h startup_in read_only_in contexts_in rehash
                  = Inr (d, out)" for h
    using CreateSnapshotBlob_layout [OF fits, of profile h rehash]
    unfolding d_def D_def s_def r_def cs_def by blast
  obtain out where c1:
    "CreateSnapshotBlob B profile heap startup_in read_only_in contexts_in rehash = Inr (d, out)"
    using create by blast
  have indep: "map_sum id fst
         (CreateSnapshotBlob B profile h startup_in read_only_in contexts_in rehash) = Inr d" for h
    using create [of h] by auto
  have sso: "unat (StartupSnapshotOffset (arch B) (of_nat n)) = so"
    unfolding so_def pad_def by (rule unat_StartupSnapshotOffset [OF n31])
  have lenD: "length D = so + length s + length r + length (concat cs)"
    by (simp add: D_def length_blob_image so_def pad_def n_def cs_def)
  have us: "unat (of_nat (length D) :: uint32) = length D"
    using small by (intro unat_of_nat_small) simp
  have alloc: "AllocateBlob heap (arch B) (of_nat n) (raw_size d)
          = Inr (replicate so 0 @ map heap [so..<length D])"
  proof -
    have urs: "unat (raw_size d) = length D"
      by (simp add: d_def us)
    have "unat (StartupSnapshotOffset (arch B) (of_nat n)) \<le> unat (raw_size d)"
      unfolding sso urs by (simp add: lenD)
    from AllocateBlob_eq [OF this, of heap] show ?thesis
      unfolding sso urs .
  qed
  have zero: "D ! k = 0" if "80 + 4 * n \<le> k" "k < so" for k
  proof -
    let ?H = "WriteLittleEndianValue (of_nat (length cs))
              @ WriteLittleEndianValue (if rehash then 1 else 0)
              @ WriteLittleEndianValue (Checksum B (blob_checksummed B s r cs))
              @ Version_GetString B
              @ WriteLittleEndianValue (of_nat (so + length s))
              @ concat (map (\<lambda>x. WriteLittleEndianValue (of_nat x))
                  (context_offsets (so + length s + length r) cs))"
    have D': "D = ?H @ replicate pad 0 @ s @ r @ concat cs"
      by (simp add: D_def blob_image_def blob_checksummed_def Let_def so_def pad_def n_def cs_def)
    have lH: "length ?H = 80 + 4 * n"
      by (simp add: n_def cs_def)
    have kp: "k - length ?H < pad"
      unfolding lH using that by (simp add: so_def)
    have "D ! k = (replicate pad 0 @ s @ r @ concat cs) ! (k - length ?H)"
      unfolding D' using that(1) lH by (subst nth_append) simp
    also have "\<dots> = replicate pad (0::byte) ! (k - length ?H)"
      using kp by (simp add: nth_append)
    also have "\<dots> = 0"
      using kp by simp
    finally show ?thesis .
  qed
  have d1: "data d = Some D" by (simp add: d_def)
  show ?thesis
    using c1 d1 alloc indep zero unfolding n_def [symmetric] sso
    by blast
qed

theorem CreateSnapshotBlob_no_uninitialized_bytes_witness:
  "fits_int32 example_build example_startup example_read_only [segment [0x43, 0x30]]
   \<and> (\<exists>blob out bs.
        CreateSnapshotBlob example_build False example_heap example_startup example_read_only
          [segment [0x43, 0x30]] True = Inr (blob, out)
        \<and> data blob = Some bs
        \<and> map_sum id fst
             (CreateSnapshotBlob example_build False counting_heap example_startup
                example_read_only [segment [0x43, 0x30]] True) = Inr blob
        \<and> bs ! 84 = 0 \<and> bs ! 87 = 0)"
proof -
  have h: "fits_int32 example_build example_startup example_read_only [segment [0x43, 0x30]]"
    by (simp add: fits_int32_def example_defs)
  have so: "unat (StartupSnapshotOffset (arch example_build) (of_nat (length [segment [0x43, 0x30]])))
            = 88"
    by (simp add: example_defs StartupSnapshotOffset_def POINTER_SIZE_ALIGN_def
        kPointerAlignmentMask_def layout_consts)
  from CreateSnapshotBlob_no_uninitialized_bytes [OF h, of False example_heap True]
  obtain blob out bs where
    c: "CreateSnapshotBlob example_build False example_heap example_startup example_read_only
          [segment [0x43, 0x30]] True = Inr (blob, out)"
    and d: "data blob = Some bs"
    and i: "\<forall>heap'. map_sum id fst
             (CreateSnapshotBlob example_build False heap' example_startup example_read_only
                [segment [0x43, 0x30]] True) = Inr blob"
    and z: "\<forall>k. 80 + 4 * length [segment [0x43, 0x30]] \<le> k
             \<and> k < unat (StartupSnapshotOffset (arch example_build)
                          (of_nat (length [segment [0x43, 0x30]]))) \<longrightarrow> bs ! k = 0"
    by blast
  have z84: "bs ! 84 = 0" using z [rule_format, of 84] unfolding so by simp
  have z87: "bs ! 87 = 0" using z [rule_format, of 87] unfolding so by simp
  show ?thesis
    using h c d i [rule_format, of counting_heap] z84 z87 by blast
qed

end
